theory Spec2Isabelle
  imports Main
begin

section \<open>Raw memory, pointers and outcomes\<close>

text \<open>
  The container of \<^verbatim>\<open>vector.h\<close> works on untyped storage, so the model has a heap
  of blocks. A block is the storage one \<^verbatim>\<open>operator new\<close> call returned: a list of slots,
  each either raw storage (\<open>None\<close>) or a constructed object (\<open>Some x\<close>). A released block
  is \<open>None\<close> in the heap; the address of a block is its index, and addresses are never
  reused. A pointer \<^verbatim>\<open>T*\<close> is null or a block address with a slot offset.

  Counts of type \<^verbatim>\<open>size_t\<close> are natural numbers: the arithmetic of the source on them
  is \<^verbatim>\<open>size_ * 2\<close>, \<^verbatim>\<open>++size_\<close>, \<^verbatim>\<open>--size_\<close> and differences of offsets, and the model
  covers the executions in which none of these leaves the range of \<^verbatim>\<open>size_t\<close>
  (a subtraction that would go below zero is a fault of the model).
\<close>

type_synonym 'a slot = "'a option"
type_synonym 'a block = "'a slot list"
type_synonym 'a heap = "'a block option list"

datatype ptr = Null | Ptr nat nat

datatype exn = bad_alloc | element_exception

datatype fault = assertion_failed | undefined_behaviour | terminate_called

text \<open>
  An operation returns a value, leaves by a C++ exception (the state is the one the
  caller sees when it catches), or ends the program: a failed \<^verbatim>\<open>assert\<close>, undefined
  behaviour, or \<^verbatim>\<open>std::terminate\<close>.
\<close>

datatype ('r, 's) outcome = Returns 'r 's | Throws exn 's | Fault fault

fun and_then :: "('r, 's) outcome \<Rightarrow> ('r \<Rightarrow> 's \<Rightarrow> ('q, 's) outcome) \<Rightarrow> ('q, 's) outcome" where
  "and_then (Returns r s) f = f r s"
| "and_then (Throws e s) f = Throws e s"
| "and_then (Fault x) f = Fault x"

text \<open>Stack unwinding: the destructor \<open>d\<close> of a local runs before the exception leaves.\<close>

fun unwinding :: "('r, 's) outcome \<Rightarrow> ('s \<Rightarrow> (unit, 's) outcome) \<Rightarrow> ('r, 's) outcome" where
  "unwinding (Returns r s) d = Returns r s"
| "unwinding (Throws e s) d =
     (case d s of Returns _ s' \<Rightarrow> Throws e s' | Throws _ _ \<Rightarrow> Fault terminate_called
      | Fault x \<Rightarrow> Fault x)"
| "unwinding (Fault x) d = Fault x"

fun ptr_add :: "ptr \<Rightarrow> nat \<Rightarrow> ptr" where
  "ptr_add Null k = Null"
| "ptr_add (Ptr b i) k = Ptr b (i + k)"

fun ptr_sub :: "ptr \<Rightarrow> nat \<Rightarrow> ptr option" where
  "ptr_sub Null k = (if k = 0 then Some Null else None)"
| "ptr_sub (Ptr b i) k = (if k \<le> i then Some (Ptr b (i - k)) else None)"

fun ptr_diff :: "ptr \<Rightarrow> ptr \<Rightarrow> nat option" where
  "ptr_diff Null Null = Some 0"
| "ptr_diff (Ptr b i) (Ptr c j) = (if b = c \<and> j \<le> i then Some (i - j) else None)"
| "ptr_diff Null (Ptr c j) = None"
| "ptr_diff (Ptr b i) Null = None"

text \<open>The block at an address, if the address is one of an allocated block.\<close>

definition block :: "'a heap \<Rightarrow> nat \<Rightarrow> 'a block option" where
  "block h b = (if b < length h then h ! b else None)"

fun load :: "'a heap \<Rightarrow> ptr \<Rightarrow> 'a slot option" where
  "load h Null = None"
| "load h (Ptr b i) =
     (case block h b of None \<Rightarrow> None
      | Some cs \<Rightarrow> if i < length cs then Some (cs ! i) else None)"

fun store :: "'a heap \<Rightarrow> ptr \<Rightarrow> 'a slot \<Rightarrow> 'a heap option" where
  "store h Null s = None"
| "store h (Ptr b i) s =
     (case block h b of None \<Rightarrow> None
      | Some cs \<Rightarrow> if i < length cs then Some (h[b := Some (cs[i := s])]) else None)"

text \<open>Reading an object, placement-new of a value, assignment to an object, destruction.\<close>

definition read_obj :: "ptr \<Rightarrow> 'a heap \<Rightarrow> ('a, 'a heap) outcome" where
  "read_obj p h = (case load h p of Some (Some x) \<Rightarrow> Returns x h | _ \<Rightarrow> Fault undefined_behaviour)"

definition construct_at :: "ptr \<Rightarrow> 'a \<Rightarrow> 'a heap \<Rightarrow> (unit, 'a heap) outcome" where
  "construct_at p x h =
     (case store h p (Some x) of Some h' \<Rightarrow> Returns () h' | None \<Rightarrow> Fault undefined_behaviour)"

definition write_obj :: "ptr \<Rightarrow> 'a \<Rightarrow> 'a heap \<Rightarrow> (unit, 'a heap) outcome" where
  "write_obj p x h =
     (case load h p of
        Some (Some _) \<Rightarrow>
          (case store h p (Some x) of Some h' \<Rightarrow> Returns () h' | None \<Rightarrow> Fault undefined_behaviour)
      | _ \<Rightarrow> Fault undefined_behaviour)"

definition destroy_at :: "ptr \<Rightarrow> 'a heap \<Rightarrow> (unit, 'a heap) outcome" where
  "destroy_at p h =
     (case load h p of
        Some (Some _) \<Rightarrow>
          (case store h p None of Some h' \<Rightarrow> Returns () h' | None \<Rightarrow> Fault undefined_behaviour)
      | _ \<Rightarrow> Fault undefined_behaviour)"

section \<open>The element type\<close>

text \<open>
  \<^verbatim>\<open>Vector<T>\<close> is a template. The model takes \<^verbatim>\<open>T\<close> as a record of what the code
  asks of it: the two type traits \<^verbatim>\<open>MoveOrCopy\<close> tests, and the constructors and
  assignments, each of which may throw (\<open>None\<close>). A move returns the new object and the
  state the source is left in. \<open>can_allocate n\<close> says whether
  \<^verbatim>\<open>operator new(n * sizeof(T))\<close> succeeds; otherwise it throws \<^verbatim>\<open>std::bad_alloc\<close>.
\<close>

record ('a, 'g) elem_type =
  is_nothrow_move_constructible :: bool
  is_copy_constructible :: bool
  can_allocate :: "nat \<Rightarrow> bool"
  value_init :: "'a option"
  default_init :: "'a option"
  construct :: "'g \<Rightarrow> 'a option"
  copy_construct :: "'a \<Rightarrow> 'a option"
  move_construct :: "'a \<Rightarrow> ('a \<times> 'a) option"
  copy_assign :: "'a \<Rightarrow> 'a \<Rightarrow> 'a option"
  move_assign :: "'a \<Rightarrow> 'a \<Rightarrow> ('a \<times> 'a) option"

text \<open>
  The arguments of \<^verbatim>\<open>T(std::forward<Args>(args)...)\<close>: constructor arguments of their
  own, or a reference to an existing object, copied (\<^verbatim>\<open>const T&\<close>) or moved from
  (\<^verbatim>\<open>T&&\<close>). A reference is a pointer, so it may point into the vector itself.
\<close>

datatype 'g ctor_args = Args 'g | Lvalue ptr | Rvalue ptr

definition copy_object :: "('a, 'g) elem_type \<Rightarrow> ptr \<Rightarrow> 'a heap \<Rightarrow> ('a, 'a heap) outcome" where
  "copy_object T src h =
     and_then (read_obj src h) (\<lambda>y h1.
       case copy_construct T y of None \<Rightarrow> Throws element_exception h1
       | Some x \<Rightarrow> Returns x h1)"

definition move_object :: "('a, 'g) elem_type \<Rightarrow> ptr \<Rightarrow> 'a heap \<Rightarrow> ('a, 'a heap) outcome" where
  "move_object T src h =
     and_then (read_obj src h) (\<lambda>y h1.
       case move_construct T y of
         None \<Rightarrow> if is_nothrow_move_constructible T then Fault terminate_called
                 else Throws element_exception h1
       | Some (x, y') \<Rightarrow> and_then (write_obj src y' h1) (\<lambda>_ h2. Returns x h2))"

fun new_object :: "('a, 'g) elem_type \<Rightarrow> 'g ctor_args \<Rightarrow> 'a heap \<Rightarrow> ('a, 'a heap) outcome" where
  "new_object T (Args g) h =
     (case construct T g of None \<Rightarrow> Throws element_exception h | Some x \<Rightarrow> Returns x h)"
| "new_object T (Lvalue p) h = copy_object T p h"
| "new_object T (Rvalue p) h = move_object T p h"

text \<open>\<^verbatim>\<open>*dst = *src\<close> and \<^verbatim>\<open>*dst = std::move(*src)\<close>.\<close>

definition assign_copy :: "('a, 'g) elem_type \<Rightarrow> ptr \<Rightarrow> ptr \<Rightarrow> 'a heap \<Rightarrow> (unit, 'a heap) outcome" where
  "assign_copy T dst src h =
     and_then (read_obj src h) (\<lambda>y h1.
     and_then (read_obj dst h1) (\<lambda>z h2.
       case copy_assign T z y of None \<Rightarrow> Throws element_exception h2
       | Some z' \<Rightarrow> write_obj dst z' h2))"

definition assign_move :: "('a, 'g) elem_type \<Rightarrow> ptr \<Rightarrow> ptr \<Rightarrow> 'a heap \<Rightarrow> (unit, 'a heap) outcome" where
  "assign_move T dst src h =
     and_then (read_obj src h) (\<lambda>y h1.
     and_then (read_obj dst h1) (\<lambda>z h2.
       case move_assign T z y of None \<Rightarrow> Throws element_exception h2
       | Some (z', y') \<Rightarrow>
           and_then (write_obj src y' h2) (\<lambda>_ h3. write_obj dst z' h3)))"


definition assign_temporary :: "('a, 'g) elem_type \<Rightarrow> ptr \<Rightarrow> 'a \<Rightarrow> 'a heap \<Rightarrow> (unit, 'a heap) outcome" where
  "assign_temporary T dst tmp h =
     and_then (read_obj dst h) (\<lambda>z h1.
       case move_assign T z tmp of None \<Rightarrow> Throws element_exception h1
       | Some (z', _) \<Rightarrow> write_obj dst z' h1)"

section \<open>The standard algorithms the source calls\<close>

text \<open>A counted loop: \<open>body k\<close> for \<open>k\<close> from the start index, \<open>n\<close> times, left at the
  first exception or fault.\<close>

fun for_each_index :: "nat \<Rightarrow> nat \<Rightarrow> (nat \<Rightarrow> 's \<Rightarrow> (unit, 's) outcome) \<Rightarrow> 's \<Rightarrow> (unit, 's) outcome" where
  "for_each_index k 0 body s = Returns () s"
| "for_each_index k (Suc n) body s = and_then (body k s) (\<lambda>_. for_each_index (Suc k) n body)"

definition destroy_n :: "ptr \<Rightarrow> nat \<Rightarrow> 'a heap \<Rightarrow> (unit, 'a heap) outcome" where
  "destroy_n first n = for_each_index 0 n (\<lambda>k. destroy_at (ptr_add first k))"

text \<open>The \<^verbatim>\<open>uninitialized_*\<close> algorithms destroy what they have constructed when a
  constructor throws, and rethrow.\<close>

definition uninitialized_value_construct_n ::
  "('a, 'g) elem_type \<Rightarrow> ptr \<Rightarrow> nat \<Rightarrow> 'a heap \<Rightarrow> (unit, 'a heap) outcome" where
  "uninitialized_value_construct_n T first n =
     for_each_index 0 n (\<lambda>k h.
       unwinding
         (case value_init T of None \<Rightarrow> Throws element_exception h
          | Some x \<Rightarrow> construct_at (ptr_add first k) x h)
         (destroy_n first k))"

definition uninitialized_default_construct_n ::
  "('a, 'g) elem_type \<Rightarrow> ptr \<Rightarrow> nat \<Rightarrow> 'a heap \<Rightarrow> (unit, 'a heap) outcome" where
  "uninitialized_default_construct_n T first n =
     for_each_index 0 n (\<lambda>k h.
       unwinding
         (case default_init T of None \<Rightarrow> Throws element_exception h
          | Some x \<Rightarrow> construct_at (ptr_add first k) x h)
         (destroy_n first k))"

definition uninitialized_copy_n ::
  "('a, 'g) elem_type \<Rightarrow> ptr \<Rightarrow> nat \<Rightarrow> ptr \<Rightarrow> 'a heap \<Rightarrow> (unit, 'a heap) outcome" where
  "uninitialized_copy_n T first n d_first =
     for_each_index 0 n (\<lambda>k h.
       unwinding
         (and_then (copy_object T (ptr_add first k) h) (construct_at (ptr_add d_first k)))
         (destroy_n d_first k))"

definition uninitialized_move_n ::
  "('a, 'g) elem_type \<Rightarrow> ptr \<Rightarrow> nat \<Rightarrow> ptr \<Rightarrow> 'a heap \<Rightarrow> (unit, 'a heap) outcome" where
  "uninitialized_move_n T first n d_first =
     for_each_index 0 n (\<lambda>k h.
       unwinding
         (and_then (move_object T (ptr_add first k) h) (construct_at (ptr_add d_first k)))
         (destroy_n d_first k))"

definition copy_n ::
  "('a, 'g) elem_type \<Rightarrow> ptr \<Rightarrow> nat \<Rightarrow> ptr \<Rightarrow> 'a heap \<Rightarrow> (unit, 'a heap) outcome" where
  "copy_n T first n result =
     for_each_index 0 n (\<lambda>k. assign_copy T (ptr_add result k) (ptr_add first k))"

text \<open>\<^verbatim>\<open>std::move(first, last, d_first)\<close> assigns front to back,
  \<^verbatim>\<open>std::move_backward(first, last, d_last)\<close> back to front (\<open>lim\<close> is the argument
  \<^verbatim>\<open>last\<close>).\<close>

definition move_range ::
  "('a, 'g) elem_type \<Rightarrow> ptr \<Rightarrow> ptr \<Rightarrow> ptr \<Rightarrow> 'a heap \<Rightarrow> (unit, 'a heap) outcome" where
  "move_range T first lim d_first h =
     (case ptr_diff lim first of None \<Rightarrow> Fault undefined_behaviour
      | Some n \<Rightarrow>
          for_each_index 0 n (\<lambda>k. assign_move T (ptr_add d_first k) (ptr_add first k)) h)"

definition move_backward ::
  "('a, 'g) elem_type \<Rightarrow> ptr \<Rightarrow> ptr \<Rightarrow> ptr \<Rightarrow> 'a heap \<Rightarrow> (unit, 'a heap) outcome" where
  "move_backward T first lim d_last h =
     (case ptr_diff lim first of None \<Rightarrow> Fault undefined_behaviour
      | Some n \<Rightarrow>
          (case ptr_sub d_last n of None \<Rightarrow> Fault undefined_behaviour
           | Some d_first \<Rightarrow>
               for_each_index 0 n
                 (\<lambda>k. assign_move T (ptr_add d_first (n - 1 - k)) (ptr_add first (n - 1 - k))) h))"

section \<open>RawMemory\<close>

text \<open>The members \<^verbatim>\<open>buffer_\<close> and \<^verbatim>\<open>capacity_\<close> (a name cannot end in an underscore
  here).\<close>

record RawMemory =
  m_buffer :: ptr
  m_capacity :: nat

definition Allocate :: "('a, 'g) elem_type \<Rightarrow> nat \<Rightarrow> 'a heap \<Rightarrow> (ptr, 'a heap) outcome" where
  "Allocate T n h =
     (if n \<noteq> 0 then
        (if can_allocate T n then Returns (Ptr (length h) 0) (h @ [Some (replicate n None)])
         else Throws bad_alloc h)
      else Returns Null h)"

fun Deallocate :: "ptr \<Rightarrow> 'a heap \<Rightarrow> (unit, 'a heap) outcome" where
  "Deallocate Null h = Returns () h"
| "Deallocate (Ptr b i) h =
     (if i = 0 \<and> block h b \<noteq> None then Returns () (h[b := None])
      else Fault undefined_behaviour)"

definition RawMemory_default :: RawMemory where
  "RawMemory_default = \<lparr>m_buffer = Null, m_capacity = 0\<rparr>"

definition RawMemory_new :: "('a, 'g) elem_type \<Rightarrow> nat \<Rightarrow> 'a heap \<Rightarrow> (RawMemory, 'a heap) outcome" where
  "RawMemory_new T capacity h =
     and_then (Allocate T capacity h) (\<lambda>p. Returns \<lparr>m_buffer = p, m_capacity = capacity\<rparr>)"

definition RawMemory_destroy :: "RawMemory \<Rightarrow> 'a heap \<Rightarrow> (unit, 'a heap) outcome" where
  "RawMemory_destroy m = Deallocate (m_buffer m)"

text \<open>\<^verbatim>\<open>a.Swap(b)\<close>: the pair is the new \<open>a\<close> and the new \<open>b\<close>.\<close>

definition RawMemory_Swap :: "RawMemory \<Rightarrow> RawMemory \<Rightarrow> RawMemory \<times> RawMemory" where
  "RawMemory_Swap a b =
     (a\<lparr>m_buffer := m_buffer b, m_capacity := m_capacity b\<rparr>,
      b\<lparr>m_buffer := m_buffer a, m_capacity := m_capacity a\<rparr>)"

definition RawMemory_at :: "RawMemory \<Rightarrow> nat \<Rightarrow> ptr option" where
  "RawMemory_at m index = (if index < m_capacity m then Some (ptr_add (m_buffer m) index) else None)"

definition GetAddress :: "RawMemory \<Rightarrow> ptr" where
  "GetAddress m = m_buffer m"

definition RawMemory_Capacity :: "RawMemory \<Rightarrow> nat" where
  "RawMemory_Capacity m = m_capacity m"

definition RawMemory_plus :: "RawMemory \<Rightarrow> nat \<Rightarrow> ptr" where
  "RawMemory_plus m offset = ptr_add (m_buffer m) offset"


section \<open>Vector\<close>

text \<open>The members \<^verbatim>\<open>data_\<close> and \<^verbatim>\<open>size_\<close>. A method runs on the heap and the object
  \<^verbatim>\<open>*this\<close>.\<close>

record Vector =
  m_data :: RawMemory
  m_size :: nat

type_synonym 'a state = "'a heap \<times> Vector"

text \<open>A step that works on the heap only, while \<^verbatim>\<open>*this\<close> is \<open>v\<close>.\<close>

fun then_on :: "Vector \<Rightarrow> ('r, 'a heap) outcome \<Rightarrow> ('r \<Rightarrow> 'a heap \<Rightarrow> ('q, 'a state) outcome)
    \<Rightarrow> ('q, 'a state) outcome" where
  "then_on v (Returns r h) f = f r h"
| "then_on v (Throws e h) f = Throws e (h, v)"
| "then_on v (Fault x) f = Fault x"

definition Vector_default :: Vector where
  "Vector_default = \<lparr>m_data = RawMemory_default, m_size = 0\<rparr>"

definition Vector_sized :: "('a, 'g) elem_type \<Rightarrow> nat \<Rightarrow> 'a heap \<Rightarrow> (Vector, 'a heap) outcome" where
  "Vector_sized T n h =
     and_then (RawMemory_new T n h) (\<lambda>d h1.
     and_then (unwinding (uninitialized_value_construct_n T (GetAddress d) n h1)
                 (RawMemory_destroy d)) (\<lambda>_.
       Returns \<lparr>m_data = d, m_size = n\<rparr>))"

definition Vector_copy :: "('a, 'g) elem_type \<Rightarrow> Vector \<Rightarrow> 'a heap \<Rightarrow> (Vector, 'a heap) outcome" where
  "Vector_copy T other h =
     and_then (RawMemory_new T (m_size other) h) (\<lambda>d h1.
     and_then (unwinding (uninitialized_copy_n T (GetAddress (m_data other)) (m_size other)
                            (GetAddress d) h1)
                 (RawMemory_destroy d)) (\<lambda>_.
       Returns \<lparr>m_data = d, m_size = m_size other\<rparr>))"

text \<open>\<^verbatim>\<open>a.Swap(b)\<close>: the pair is the new \<open>a\<close> and the new \<open>b\<close>.\<close>

definition Swap :: "Vector \<Rightarrow> Vector \<Rightarrow> Vector \<times> Vector" where
  "Swap a b =
     (case RawMemory_Swap (m_data a) (m_data b) of
        (da, db) \<Rightarrow> (a\<lparr>m_data := da, m_size := m_size b\<rparr>, b\<lparr>m_data := db, m_size := m_size a\<rparr>))"

text \<open>The move constructor: the new object and what is left of \<open>other\<close>.\<close>

definition Vector_move :: "Vector \<Rightarrow> Vector \<times> Vector" where
  "Vector_move other = Swap Vector_default other"

definition Vector_destroy :: "Vector \<Rightarrow> 'a heap \<Rightarrow> (unit, 'a heap) outcome" where
  "Vector_destroy v h =
     and_then (destroy_n (GetAddress (m_data v)) (m_size v) h) (\<lambda>_. RawMemory_destroy (m_data v))"

definition Size :: "Vector \<Rightarrow> nat" where
  "Size v = m_size v"

definition Capacity :: "Vector \<Rightarrow> nat" where
  "Capacity v = RawMemory_Capacity (m_data v)"

definition Vector_begin :: "Vector \<Rightarrow> ptr" where
  "Vector_begin v = GetAddress (m_data v)"

definition Vector_end :: "Vector \<Rightarrow> ptr" where
  "Vector_end v = ptr_add (GetAddress (m_data v)) (m_size v)"

definition Vector_at :: "Vector \<Rightarrow> nat \<Rightarrow> 'a state \<Rightarrow> (ptr, 'a state) outcome" where
  "Vector_at v index s =
     (if index < m_size v then
        (case RawMemory_at (m_data v) index of None \<Rightarrow> Fault assertion_failed
         | Some p \<Rightarrow> Returns p s)
      else Fault assertion_failed)"

definition MoveOrCopy ::
  "('a, 'g) elem_type \<Rightarrow> ptr \<Rightarrow> nat \<Rightarrow> ptr \<Rightarrow> 'a heap \<Rightarrow> (unit, 'a heap) outcome" where
  "MoveOrCopy T data n new_data h =
     (if is_nothrow_move_constructible T \<or> \<not> is_copy_constructible T
      then uninitialized_move_n T data n new_data h
      else uninitialized_copy_n T data n new_data h)"

fun Reserve :: "('a, 'g) elem_type \<Rightarrow> nat \<Rightarrow> 'a state \<Rightarrow> (unit, 'a state) outcome" where
  "Reserve T new_capacity (h, v) =
     (if new_capacity \<le> RawMemory_Capacity (m_data v) then Returns () (h, v)
      else
        then_on v (RawMemory_new T new_capacity h) (\<lambda>new_data h1.
        then_on v (unwinding
                     (MoveOrCopy T (GetAddress (m_data v)) (m_size v) (GetAddress new_data) h1)
                     (RawMemory_destroy new_data)) (\<lambda>_ h2.
        then_on v (destroy_n (GetAddress (m_data v)) (m_size v) h2) (\<lambda>_ h3.
          case RawMemory_Swap (m_data v) new_data of
            (d, old) \<Rightarrow>
              then_on (v\<lparr>m_data := d\<rparr>) (RawMemory_destroy old h3) (\<lambda>_ h4.
                Returns () (h4, v\<lparr>m_data := d\<rparr>))))))"

text \<open>A reference \<^verbatim>\<open>const Vector& other\<close> denotes \<^verbatim>\<open>*this\<close> itself or another object,
  which owns another buffer.\<close>

datatype vector_ref = This | That Vector

fun deref :: "vector_ref \<Rightarrow> Vector \<Rightarrow> Vector" where
  "deref This v = v"
| "deref (That w) v = w"

fun copy_assignment :: "('a, 'g) elem_type \<Rightarrow> vector_ref \<Rightarrow> 'a state \<Rightarrow> (unit, 'a state) outcome" where
  "copy_assignment T other (h, v) =
     and_then
       (if m_size (deref other v) > RawMemory_Capacity (m_data v) then
          then_on v (Vector_copy T (deref other v) h) (\<lambda>temp h1.
            case Swap v temp of
              (v1, temp1) \<Rightarrow> then_on v1 (Vector_destroy temp1 h1) (\<lambda>_ h2. Returns () (h2, v1)))
        else
          then_on v (copy_n T (GetAddress (m_data (deref other v)))
                       (min (m_size v) (Size (deref other v))) (GetAddress (m_data v)) h) (\<lambda>_ h1.
          then_on v
            (if m_size v > Size (deref other v) then
               destroy_n (RawMemory_plus (m_data v) (Size (deref other v)))
                 (m_size v - Size (deref other v)) h1
             else if m_size v < Size (deref other v) then
               uninitialized_copy_n T (ptr_add (GetAddress (m_data (deref other v))) (m_size v))
                 (Size (deref other v) - m_size v) (ptr_add (GetAddress (m_data v)) (m_size v)) h1
             else Returns () h1) (\<lambda>_ h2. Returns () (h2, v))))
       (\<lambda>_ (h3, v3). Returns () (h3, v3\<lparr>m_size := Size (deref other v3)\<rparr>))"

text \<open>Move assignment: the new \<^verbatim>\<open>*this\<close> and what is left of \<open>rhs\<close>.\<close>

definition move_assignment :: "Vector \<Rightarrow> Vector \<Rightarrow> Vector \<times> Vector" where
  "move_assignment v rhs = Swap v rhs"

fun Resize :: "('a, 'g) elem_type \<Rightarrow> nat \<Rightarrow> 'a state \<Rightarrow> (unit, 'a state) outcome" where
  "Resize T new_size (h, v) =
     (if new_size > m_size v then
        and_then (if new_size > RawMemory_Capacity (m_data v) then Reserve T new_size (h, v)
                  else Returns () (h, v)) (\<lambda>_ (h1, v1).
        then_on v1 (uninitialized_default_construct_n T (RawMemory_plus (m_data v1) (m_size v1))
                      (new_size - m_size v1) h1) (\<lambda>_ h2.
          Returns () (h2, v1\<lparr>m_size := new_size\<rparr>)))
      else
        then_on v (destroy_n (ptr_add (GetAddress (m_data v)) new_size) (m_size v - new_size) h)
          (\<lambda>_ h1. Returns () (h1, v\<lparr>m_size := new_size\<rparr>)))"

fun PopBack :: "'a state \<Rightarrow> (unit, 'a state) outcome" where
  "PopBack (h, v) =
     (if m_size v > 0 then
        then_on (v\<lparr>m_size := m_size v - 1\<rparr>)
          (destroy_at (RawMemory_plus (m_data v) (m_size v - 1)) h)
          (\<lambda>_ h1. Returns () (h1, v\<lparr>m_size := m_size v - 1\<rparr>))
      else Fault assertion_failed)"

fun EmplaceBack :: "('a, 'g) elem_type \<Rightarrow> 'g ctor_args \<Rightarrow> 'a state \<Rightarrow> (ptr, 'a state) outcome" where
  "EmplaceBack T args (h, v) =
     (if m_size v = Capacity v then
        then_on v (RawMemory_new T (if m_size v = 0 then 1 else m_size v * 2) h) (\<lambda>new_data h1.
        then_on v
          (unwinding
             (and_then (new_object T args h1) (\<lambda>x h2.
              and_then (construct_at (RawMemory_plus new_data (m_size v)) x h2) (\<lambda>_ h3.
              and_then (MoveOrCopy T (GetAddress (m_data v)) (m_size v) (GetAddress new_data) h3)
                (\<lambda>_ h4. destroy_n (GetAddress (m_data v)) (m_size v) h4))))
             (RawMemory_destroy new_data)) (\<lambda>_ h5.
          case RawMemory_Swap (m_data v) new_data of
            (d, old) \<Rightarrow>
              then_on (v\<lparr>m_data := d, m_size := m_size v + 1\<rparr>) (RawMemory_destroy old h5) (\<lambda>_ h6.
                case RawMemory_at d (m_size v + 1 - 1) of None \<Rightarrow> Fault assertion_failed
                | Some r \<Rightarrow> Returns r (h6, v\<lparr>m_data := d, m_size := m_size v + 1\<rparr>))))
      else
        then_on v
          (and_then (new_object T args h)
             (\<lambda>x h1. construct_at (RawMemory_plus (m_data v) (m_size v)) x h1)) (\<lambda>_ h2.
          case RawMemory_at (m_data v) (m_size v + 1 - 1) of None \<Rightarrow> Fault assertion_failed
          | Some r \<Rightarrow> Returns r (h2, v\<lparr>m_size := m_size v + 1\<rparr>)))"

text \<open>\<^verbatim>\<open>PushBack(const T&)\<close> and \<^verbatim>\<open>PushBack(T&&)\<close>; \<open>val\<close> is the reference.\<close>

definition PushBack :: "('a, 'g) elem_type \<Rightarrow> ptr \<Rightarrow> 'a state \<Rightarrow> (unit, 'a state) outcome" where
  "PushBack T val s = and_then (EmplaceBack T (Lvalue val) s) (\<lambda>_. Returns ())"

definition PushBack_move :: "('a, 'g) elem_type \<Rightarrow> ptr \<Rightarrow> 'a state \<Rightarrow> (unit, 'a state) outcome" where
  "PushBack_move T val s = and_then (EmplaceBack T (Rvalue val) s) (\<lambda>_. Returns ())"

fun Emplace :: "('a, 'g) elem_type \<Rightarrow> ptr \<Rightarrow> 'g ctor_args \<Rightarrow> 'a state \<Rightarrow> (ptr, 'a state) outcome" where
  "Emplace T pos args (h, v) =
     (case ptr_diff pos (Vector_begin v) of
        None \<Rightarrow> Fault undefined_behaviour
      | Some dist \<Rightarrow>
        then_on v (RawMemory_new T (if m_size v = 0 then 1 else m_size v * 2) h) (\<lambda>new_data h1.
        if m_size v = RawMemory_Capacity (m_data v) then
          then_on v
            (unwinding
               (and_then (new_object T args h1) (\<lambda>x h2.
                and_then (construct_at (RawMemory_plus new_data dist) x h2) (\<lambda>_ h3.
                and_then (MoveOrCopy T (Vector_begin v) dist (GetAddress new_data) h3) (\<lambda>_ h4.
                and_then (if m_size v < dist then Fault undefined_behaviour
                          else MoveOrCopy T (ptr_add (Vector_begin v) dist) (m_size v - dist)
                                 (ptr_add (GetAddress new_data) (dist + 1)) h4) (\<lambda>_ h5.
                  destroy_n (GetAddress (m_data v)) (m_size v) h5)))))
               (RawMemory_destroy new_data)) (\<lambda>_ h6.
            case RawMemory_Swap (m_data v) new_data of
              (d, old) \<Rightarrow>
                then_on (v\<lparr>m_data := d, m_size := m_size v + 1\<rparr>) (RawMemory_destroy old h6)
                  (\<lambda>_ h7. Returns (ptr_add (Vector_begin (v\<lparr>m_data := d, m_size := m_size v + 1\<rparr>)) dist)
                             (h7, v\<lparr>m_data := d, m_size := m_size v + 1\<rparr>)))
        else
          (case RawMemory_at (m_data v) dist of
             None \<Rightarrow> Fault assertion_failed
           | Some it \<Rightarrow>
             then_on v
               (unwinding
                  (if pos = Null \<or> pos = Vector_end v then
                     and_then (new_object T args h1) (\<lambda>x h2. construct_at (Vector_end v) x h2)
                   else
                     (case ptr_sub (Vector_end v) 1 of
                        None \<Rightarrow> Fault undefined_behaviour
                      | Some back \<Rightarrow>
                          and_then (move_object T back h1) (\<lambda>x h2.
                          and_then (construct_at (Vector_end v) x h2) (\<lambda>_ h3.
                          and_then (move_backward T it back (Vector_end v) h3) (\<lambda>_ h4.
                          and_then (new_object T args h4) (\<lambda>tmp h5.
                            assign_temporary T it tmp h5))))))
                  (RawMemory_destroy new_data)) (\<lambda>_ h6.
               then_on (v\<lparr>m_size := m_size v + 1\<rparr>) (RawMemory_destroy new_data h6)
                 (\<lambda>_ h7. Returns it (h7, v\<lparr>m_size := m_size v + 1\<rparr>))))))"

fun Erase :: "('a, 'g) elem_type \<Rightarrow> ptr \<Rightarrow> 'a state \<Rightarrow> (ptr, 'a state) outcome" where
  "Erase T p (h, v) =
     (if Vector_begin v = Vector_end v then Returns p (h, v)
      else
        and_then (then_on v (move_range T (ptr_add p 1) (Vector_end v) p h)
                    (\<lambda>_ h1. Returns () (h1, v))) (\<lambda>_ s1.
        and_then (PopBack s1) (\<lambda>_ s2. Returns p s2)))"

text \<open>\<^verbatim>\<open>Insert(pos, const T&)\<close> and \<^verbatim>\<open>Insert(pos, T&&)\<close>.\<close>

definition Insert :: "('a, 'g) elem_type \<Rightarrow> ptr \<Rightarrow> ptr \<Rightarrow> 'a state \<Rightarrow> (ptr, 'a state) outcome" where
  "Insert T pos val s = Emplace T pos (Lvalue val) s"

definition Insert_move :: "('a, 'g) elem_type \<Rightarrow> ptr \<Rightarrow> ptr \<Rightarrow> 'a state \<Rightarrow> (ptr, 'a state) outcome" where
  "Insert_move T pos val s = Emplace T pos (Rvalue val) s"


section \<open>What the claims speak of\<close>

text \<open>The cells of the buffer a vector owns, the sequence of its live elements, and the
  invariant of the data model: the buffer is null with capacity 0 or a block of
  \<^verbatim>\<open>capacity_\<close> slots, \<^verbatim>\<open>size_\<close> does not exceed the capacity, the slots below
  \<^verbatim>\<open>size_\<close> hold constructed objects and the slots from \<^verbatim>\<open>size_\<close> on are raw.\<close>

definition buffer_cells :: "'a heap \<Rightarrow> Vector \<Rightarrow> 'a block" where
  "buffer_cells h v =
     (case m_buffer (m_data v) of Null \<Rightarrow> []
      | Ptr b i \<Rightarrow> (case block h b of None \<Rightarrow> [] | Some cs \<Rightarrow> drop i cs))"

definition elements :: "'a heap \<Rightarrow> Vector \<Rightarrow> 'a list" where
  "elements h v = map the (take (m_size v) (buffer_cells h v))"

definition invariant :: "'a heap \<Rightarrow> Vector \<Rightarrow> bool" where
  "invariant h v \<longleftrightarrow>
     m_size v \<le> m_capacity (m_data v) \<and>
     (case m_buffer (m_data v) of
        Null \<Rightarrow> m_capacity (m_data v) = 0
      | Ptr b i \<Rightarrow>
          i = 0 \<and> 0 < m_capacity (m_data v) \<and>
          (case block h b of None \<Rightarrow> False
           | Some cs \<Rightarrow>
               length cs = m_capacity (m_data v) \<and>
               list_all (\<lambda>s. s \<noteq> None) (take (m_size v) cs) \<and>
               list_all (\<lambda>s. s = None) (drop (m_size v) cs)))"

text \<open>The position \<open>p\<close> of a vector as an iterator.\<close>

definition position :: "Vector \<Rightarrow> nat \<Rightarrow> ptr" where
  "position v p = ptr_add (Vector_begin v) p"

text \<open>An element type has value semantics when a copy or a move that succeeds gives the
  value of its source. Nothing is said of the state a move leaves behind, and nothing
  of whether the operations throw.\<close>

definition value_semantics :: "('a, 'g) elem_type \<Rightarrow> bool" where
  "value_semantics T \<longleftrightarrow>
     (\<forall>x y. copy_construct T x = Some y \<longrightarrow> y = x) \<and>
     (\<forall>x y z. move_construct T x = Some (y, z) \<longrightarrow> y = x) \<and>
     (\<forall>d s r. copy_assign T d s = Some r \<longrightarrow> r = s) \<and>
     (\<forall>d s r z. move_assign T d s = Some (r, z) \<longrightarrow> r = s)"

text \<open>The test of \<^verbatim>\<open>MoveOrCopy\<close>, and what it makes of one element: the new object.\<close>

definition migrates_by_move :: "('a, 'g) elem_type \<Rightarrow> bool" where
  "migrates_by_move T \<longleftrightarrow> is_nothrow_move_constructible T \<or> \<not> is_copy_constructible T"

definition migrated :: "('a, 'g) elem_type \<Rightarrow> 'a \<Rightarrow> 'a option" where
  "migrated T x =
     (if migrates_by_move T then map_option fst (move_construct T x) else copy_construct T x)"

text \<open>Replacing the cells of a block from index \<open>i\<close> on by \<open>ys\<close>.\<close>

definition splice :: "'b list \<Rightarrow> nat \<Rightarrow> 'b list \<Rightarrow> 'b list" where
  "splice cs i ys = take i cs @ ys @ drop (i + length ys) cs"

text \<open>A run of \<^verbatim>\<open>EmplaceBack\<close> calls, one for each argument in turn.\<close>

fun EmplaceBack_all :: "('a, 'g) elem_type \<Rightarrow> 'g ctor_args list \<Rightarrow> 'a state \<Rightarrow> (unit, 'a state) outcome" where
  "EmplaceBack_all T [] s = Returns () s"
| "EmplaceBack_all T (a # as) s = and_then (EmplaceBack T a s) (\<lambda>_. EmplaceBack_all T as)"

text \<open>Element types for the examples: \<^verbatim>\<open>int\<close>; a move-only handle, whose move leaves
  the source empty and is not declared \<^verbatim>\<open>noexcept\<close>; and a copyable type whose
  constructor throws on a negative argument and whose copies, moves and assignments
  throw on the value 13.\<close>

definition int_type :: "(int, int) elem_type" where
  "int_type =
     \<lparr>is_nothrow_move_constructible = True, is_copy_constructible = True,
      can_allocate = (\<lambda>n. True), value_init = Some 0, default_init = Some 0,
      construct = (\<lambda>g. Some g), copy_construct = (\<lambda>x. Some x),
      move_construct = (\<lambda>x. Some (x, x)), copy_assign = (\<lambda>d s. Some s),
      move_assign = (\<lambda>d s. Some (s, s))\<rparr>"

definition handle_type :: "(int option, int) elem_type" where
  "handle_type =
     \<lparr>is_nothrow_move_constructible = False, is_copy_constructible = False,
      can_allocate = (\<lambda>n. True), value_init = Some None, default_init = Some None,
      construct = (\<lambda>g. Some (Some g)), copy_construct = (\<lambda>x. None),
      move_construct = (\<lambda>x. Some (x, None)), copy_assign = (\<lambda>d s. None),
      move_assign = (\<lambda>d s. Some (s, None))\<rparr>"

definition throwing_type :: "(int, int) elem_type" where
  "throwing_type =
     \<lparr>is_nothrow_move_constructible = False, is_copy_constructible = True,
      can_allocate = (\<lambda>n. True), value_init = Some 0, default_init = Some 0,
      construct = (\<lambda>g. if g < 0 then None else Some g),
      copy_construct = (\<lambda>x. if x = 13 then None else Some x),
      move_construct = (\<lambda>x. if x = 13 then None else Some (x, x)),
      copy_assign = (\<lambda>d s. if s = 13 then None else Some s),
      move_assign = (\<lambda>d s. if s = 13 then None else Some (s, s))\<rparr>"

text \<open>Whatever state an operation started on \<open>v\<close> ends in, by return or by exception,
  the capacity there is not below the capacity of \<open>v\<close>.\<close>

definition capacity_not_below :: "Vector \<Rightarrow> ('r, 'a state) outcome \<Rightarrow> bool" where
  "capacity_not_below v m =
     (case m of Returns r s \<Rightarrow> Capacity v \<le> Capacity (snd s)
      | Throws e s \<Rightarrow> Capacity v \<le> Capacity (snd s)
      | Fault x \<Rightarrow> True)"

text \<open>Two vector objects that do not own the same block.\<close>

definition separate :: "Vector \<Rightarrow> Vector \<Rightarrow> bool" where
  "separate v w =
     (case m_buffer (m_data v) of Null \<Rightarrow> True
      | Ptr b i \<Rightarrow> (case m_buffer (m_data w) of Null \<Rightarrow> True | Ptr c j \<Rightarrow> b \<noteq> c))"

section \<open>Reasoning about outcomes, blocks and loops\<close>

subsection \<open>When an operation returns\<close>

lemma and_then_Returns:
  "and_then m f = Returns r s \<longleftrightarrow> (\<exists>r' s'. m = Returns r' s' \<and> f r' s' = Returns r s)"
  by (cases m) auto

lemma then_on_Returns:
  "then_on v m f = Returns r s \<longleftrightarrow> (\<exists>r' h'. m = Returns r' h' \<and> f r' h' = Returns r s)"
  by (cases m) auto

lemma unwinding_Returns: "unwinding m d = Returns r s \<longleftrightarrow> m = Returns r s"
  by (cases m) (auto split: outcome.splits)

lemma option_Fault_Returns:
  "(case x of None \<Rightarrow> Fault e | Some y \<Rightarrow> f y) = Returns r s \<longleftrightarrow> (\<exists>y. x = Some y \<and> f y = Returns r s)"
  by (cases x) auto

lemma option_Throws_Returns:
  "(case x of None \<Rightarrow> Throws e t | Some y \<Rightarrow> f y) = Returns r s \<longleftrightarrow> (\<exists>y. x = Some y \<and> f y = Returns r s)"
  by (cases x) auto

lemma if_Fault_Returns:
  "(if c then Fault e else m) = Returns r s \<longleftrightarrow> \<not> c \<and> m = Returns r s"
  "(if c then m else Fault e) = Returns r s \<longleftrightarrow> c \<and> m = Returns r s"
  by auto

lemmas Returns_simps = and_then_Returns then_on_Returns unwinding_Returns option_Fault_Returns
  option_Throws_Returns if_Fault_Returns

subsection \<open>Blocks\<close>

lemma block_update [simp]:
  "block (h[b := x]) b' = (if b' = b \<and> b < length h then x else block h b')"
  by (auto simp: block_def)

lemma block_append [simp]:
  "block (h @ [x]) b = (if b = length h then x else block h b)"
  by (auto simp: block_def nth_append)

lemma block_Some_length: "block h b = Some cs \<Longrightarrow> b < length h"
  by (auto simp: block_def split: if_splits)

lemma block_update_same: "block h b = Some cs \<Longrightarrow> h[b := Some cs] = h"
  by (auto simp: block_def split: if_splits) (metis list_update_id)

lemma read_obj_Returns:
  "read_obj (Ptr b i) h = Returns x h' \<longleftrightarrow>
     h' = h \<and> (\<exists>cs. block h b = Some cs \<and> i < length cs \<and> cs ! i = Some x)"
  by (auto simp: read_obj_def  split: option.splits)

lemma construct_at_Returns:
  "construct_at (Ptr b i) x h = Returns u h' \<longleftrightarrow>
     (\<exists>cs. block h b = Some cs \<and> i < length cs \<and> h' = h[b := Some (cs[i := Some x])])"
  by (auto simp: construct_at_def  split: option.splits)

lemma write_obj_Returns:
  "write_obj (Ptr b i) x h = Returns u h' \<longleftrightarrow>
     (\<exists>cs y. block h b = Some cs \<and> i < length cs \<and> cs ! i = Some y \<and> h' = h[b := Some (cs[i := Some x])])"
  by (auto simp: write_obj_def  split: option.splits)

lemma destroy_at_Returns:
  "destroy_at (Ptr b i) h = Returns u h' \<longleftrightarrow>
     (\<exists>cs y. block h b = Some cs \<and> i < length cs \<and> cs ! i = Some y \<and> h' = h[b := Some (cs[i := None])])"
  by (auto simp: destroy_at_def  split: option.splits)

lemma copy_object_Returns:
  "copy_object T (Ptr b i) h = Returns x h' \<longleftrightarrow>
     h' = h \<and> (\<exists>cs y. block h b = Some cs \<and> i < length cs \<and> cs ! i = Some y \<and> copy_construct T y = Some x)"
  by (auto simp: copy_object_def Returns_simps read_obj_Returns)

lemma move_object_Returns:
  "move_object T (Ptr b i) h = Returns x h' \<longleftrightarrow>
     (\<exists>cs y y'. block h b = Some cs \<and> i < length cs \<and> cs ! i = Some y \<and>
        move_construct T y = Some (x, y') \<and> h' = h[b := Some (cs[i := Some y'])])"
  by (auto simp: move_object_def Returns_simps read_obj_Returns write_obj_Returns split: option.splits)

subsection \<open>Loops\<close>

lemma for_each_index_Returns:
  assumes "for_each_index k n body s = Returns u s'"
    and "I k s"
    and "\<And>j t t'. k \<le> j \<Longrightarrow> j < k + n \<Longrightarrow> I j t \<Longrightarrow> body j t = Returns () t' \<Longrightarrow> I (Suc j) t'"
  shows "I (k + n) s'"
  using assms
proof (induction n arbitrary: k s)
  case 0
  then show ?case by simp
next
  case (Suc n)
  from Suc.prems(1) obtain t where t: "body k s = Returns () t"
    and rest: "for_each_index (Suc k) n body t = Returns u s'"
    by (auto simp: and_then_Returns)
  have "I (Suc k) t" using Suc.prems(3)[OF _ _ Suc.prems(2) t] by simp
  from Suc.IH[OF rest this] Suc.prems(3) show ?case by simp
qed

lemma splice_Nil [simp]: "splice cs i [] = cs"
  by (simp add: splice_def)

lemma length_splice [simp]: "i + length ys \<le> length cs \<Longrightarrow> length (splice cs i ys) = length cs"
  by (simp add: splice_def)

lemma splice_snoc:
  "i + length ys < length cs \<Longrightarrow> (splice cs i ys)[i + length ys := y] = splice cs i (ys @ [y])"
  by (simp add: splice_def list_update_append upd_conv_take_nth_drop)

lemma nth_splice:
  "i + length ys \<le> length cs \<Longrightarrow> j < length cs \<Longrightarrow>
   splice cs i ys ! j = (if j < i then cs ! j else if j < i + length ys then ys ! (j - i) else cs ! j)"
  by (auto simp: splice_def nth_append)

lemma destroy_n_Returns:
  assumes "destroy_n (Ptr b i) n h = Returns u h'" and "block h b = Some cs"
  shows "h' = h[b := Some (splice cs i (replicate n None))] \<and>
         (\<forall>j<n. i + j < length cs \<and> cs ! (i + j) \<noteq> None)"
proof -
  let ?I = "\<lambda>k t. t = h[b := Some (splice cs i (replicate k None))] \<and>
         (\<forall>j<k. i + j < length cs \<and> cs ! (i + j) \<noteq> None)"
  have "?I (0 + n) h'"
  proof (rule for_each_index_Returns[where I = ?I, OF assms(1)[unfolded destroy_n_def]])
    show "?I 0 h" using assms(2) by (simp add: block_update_same)
  next
    fix j t t'
    assume j: "0 \<le> j" "j < 0 + n" and I: "?I j t" and step: "destroy_at (ptr_add (Ptr b i) j) t = Returns () t'"
    from I assms(2) have bt: "block t b = Some (splice cs i (replicate j None))"
      by (auto dest: block_Some_length)
    from step bt have lt: "i + j < length cs"
      and t': "t' = t[b := Some ((splice cs i (replicate j None))[i + j := None])]"
      and nn: "splice cs i (replicate j None) ! (i + j) \<noteq> None"
      by (auto simp: destroy_at_Returns splice_def)
    from nn lt have nn': "cs ! (i + j) \<noteq> None" by (simp add: nth_splice)
    have "(splice cs i (replicate j None))[i + j := None] = splice cs i (replicate (Suc j) None)"
      using splice_snoc[of i "replicate j None" cs None] lt by (simp add: replicate_append_same)
    with t' I lt nn' show "?I (Suc j) t'"
      by (auto simp: less_Suc_eq)
  qed
  then show ?thesis by simp
qed


lemma update_twice_two:
  "bs \<noteq> bd \<Longrightarrow> h[bs := A, bd := B, bs := A', bd := B'] = h[bs := A', bd := B']"
  by (simp add: list_update_swap[of bs bd])

lemma uninitialized_copy_n_Returns:
  assumes "uninitialized_copy_n T (Ptr bs i) n (Ptr bd j) h = Returns u h'"
    and "block h bs = Some cs" and "block h bd = Some cd" and "bs \<noteq> bd"
  shows "\<exists>ys. length ys = n \<and> h' = h[bd := Some (splice cd j (map Some ys))] \<and>
           (\<forall>k<n. i + k < length cs \<and> j + k < length cd \<and>
              (\<exists>x. cs ! (i + k) = Some x \<and> copy_construct T x = Some (ys ! k)))"
proof -
  let ?I = "\<lambda>m t. \<exists>ys. length ys = m \<and> t = h[bd := Some (splice cd j (map Some ys))] \<and>
           (\<forall>k<m. i + k < length cs \<and> j + k < length cd \<and>
              (\<exists>x. cs ! (i + k) = Some x \<and> copy_construct T x = Some (ys ! k)))"
  have "?I (0 + n) h'"
  proof (rule for_each_index_Returns[where I = ?I, OF assms(1)[unfolded uninitialized_copy_n_def]])
    show "?I 0 h" using assms(3) by (simp add: block_update_same)
  next
    fix m t t'
    assume I: "?I m t"
      and step: "unwinding (and_then (copy_object T (ptr_add (Ptr bs i) m) t)
                   (construct_at (ptr_add (Ptr bd j) m))) (destroy_n (Ptr bd j) m) = Returns () t'"
    from I obtain ys where ys: "length ys = m" "t = h[bd := Some (splice cd j (map Some ys))]"
      "\<forall>k<m. i + k < length cs \<and> j + k < length cd \<and>
              (\<exists>x. cs ! (i + k) = Some x \<and> copy_construct T x = Some (ys ! k))" by blast
    have bs: "block t bs = Some cs" and bd: "block t bd = Some (splice cd j (map Some ys))"
      using ys(2) assms(2-4) by (auto dest: block_Some_length)
    from step bs bd obtain x y where x: "i + m < length cs" "cs ! (i + m) = Some x"
      "copy_construct T x = Some y" and lt: "j + m < length (splice cd j (map Some ys))"
      and t': "t' = t[bd := Some ((splice cd j (map Some ys))[j + m := Some y])]"
      by (auto simp: Returns_simps copy_object_Returns construct_at_Returns)
    from lt ys(1) have lt': "j + m < length cd" by (simp add: splice_def split: if_splits)
    have "(splice cd j (map Some ys))[j + m := Some y] = splice cd j (map Some (ys @ [y]))"
      using splice_snoc[of j "map Some ys" cd "Some y"] lt' ys(1) by simp
    with t' ys x lt' show "?I (Suc m) t'"
      by (intro exI[of _ "ys @ [y]"]) (auto simp: less_Suc_eq nth_append)
  qed
  then show ?thesis by simp
qed

lemma uninitialized_move_n_Returns:
  assumes "uninitialized_move_n T (Ptr bs i) n (Ptr bd j) h = Returns u h'"
    and "block h bs = Some cs" and "block h bd = Some cd" and "bs \<noteq> bd"
  shows "\<exists>ys zs. length ys = n \<and> length zs = n \<and>
           h' = h[bs := Some (splice cs i (map Some zs)), bd := Some (splice cd j (map Some ys))] \<and>
           (\<forall>k<n. i + k < length cs \<and> j + k < length cd \<and>
              (\<exists>x. cs ! (i + k) = Some x \<and> move_construct T x = Some (ys ! k, zs ! k)))"
proof -
  let ?I = "\<lambda>m t. \<exists>ys zs. length ys = m \<and> length zs = m \<and>
           t = h[bs := Some (splice cs i (map Some zs)), bd := Some (splice cd j (map Some ys))] \<and>
           (\<forall>k<m. i + k < length cs \<and> j + k < length cd \<and>
              (\<exists>x. cs ! (i + k) = Some x \<and> move_construct T x = Some (ys ! k, zs ! k)))"
  have "?I (0 + n) h'"
  proof (rule for_each_index_Returns[where I = ?I, OF assms(1)[unfolded uninitialized_move_n_def]])
    show "?I 0 h" using assms(2,3) by (simp add: block_update_same)
  next
    fix m t t'
    assume I: "?I m t"
      and step: "unwinding (and_then (move_object T (ptr_add (Ptr bs i) m) t)
                   (construct_at (ptr_add (Ptr bd j) m))) (destroy_n (Ptr bd j) m) = Returns () t'"
    from I obtain ys zs where ys: "length ys = m" "length zs = m"
      "t = h[bs := Some (splice cs i (map Some zs)), bd := Some (splice cd j (map Some ys))]"
      "\<forall>k<m. i + k < length cs \<and> j + k < length cd \<and>
              (\<exists>x. cs ! (i + k) = Some x \<and> move_construct T x = Some (ys ! k, zs ! k))" by blast
    have bs: "block t bs = Some (splice cs i (map Some zs))"
      and bd: "block t bd = Some (splice cd j (map Some ys))"
      using ys(3) assms(2-4) by (auto dest: block_Some_length)
    from step bs bd obtain x y z where lts: "i + m < length (splice cs i (map Some zs))"
      and x: "splice cs i (map Some zs) ! (i + m) = Some x" "move_construct T x = Some (y, z)"
      and lt: "j + m < length (splice cd j (map Some ys))"
      and t': "t' = t[bs := Some ((splice cs i (map Some zs))[i + m := Some z]),
                     bd := Some ((splice cd j (map Some ys))[j + m := Some y])]"
      using assms(4) by (auto simp: Returns_simps move_object_Returns construct_at_Returns)
    from lt ys(1) have lt': "j + m < length cd" by (simp add: splice_def split: if_splits)
    from lts ys(2) have lts': "i + m < length cs" by (simp add: splice_def split: if_splits)
    from x(1) lts' ys(2) have x': "cs ! (i + m) = Some x" by (simp add: nth_splice)
    have 1: "(splice cd j (map Some ys))[j + m := Some y] = splice cd j (map Some (ys @ [y]))"
      using splice_snoc[of j "map Some ys" cd "Some y"] lt' ys(1) by simp
    have 2: "(splice cs i (map Some zs))[i + m := Some z] = splice cs i (map Some (zs @ [z]))"
      using splice_snoc[of i "map Some zs" cs "Some z"] lts' ys(2) by simp
    have "t' = h[bs := Some (splice cs i (map Some (zs @ [z]))),
                 bd := Some (splice cd j (map Some (ys @ [y])))]"
      unfolding t' ys(3) 1 2 using assms(4) by (rule update_twice_two)
    with ys x x' lt' lts' show "?I (Suc m) t'"
      by (intro exI[of _ "ys @ [y]"] exI[of _ "zs @ [z]"]) (auto simp: less_Suc_eq nth_append)
  qed
  then show ?thesis by simp
qed

lemma splice_same:
  assumes "\<forall>k<length ys. i + k < length cs \<and> cs ! (i + k) = ys ! k"
  shows "splice cs i ys = cs"
proof (cases "ys = []")
  case True then show ?thesis by simp
next
  case False
  then have "length ys - 1 < length ys" by (cases ys) auto
  with assms have "i + (length ys - 1) < length cs" by blast
  with False have le: "i + length ys \<le> length cs" by (cases ys) auto
  show ?thesis
  proof (rule nth_equalityI)
    show "length (splice cs i ys) = length cs" using le by simp
  next
    fix k assume "k < length (splice cs i ys)"
    with le have k: "k < length cs" by simp
    show "splice cs i ys ! k = cs ! k"
      using assms le k by (auto simp: nth_splice) (metis add_diff_inverse_nat nat_add_left_cancel_less)
  qed
qed

lemma splice_replicate_0:
  "length ys \<le> n \<Longrightarrow> splice (replicate n x) 0 ys = ys @ replicate (n - length ys) x"
  by (simp add: splice_def)

lemma RawMemory_new_Returns:
  "RawMemory_new T n h = Returns m h' \<longleftrightarrow>
     (if n = 0 then m = \<lparr>m_buffer = Null, m_capacity = 0\<rparr> \<and> h' = h
      else can_allocate T n \<and> m = \<lparr>m_buffer = Ptr (length h) 0, m_capacity = n\<rparr> \<and>
           h' = h @ [Some (replicate n None)])"
  by (auto simp: RawMemory_new_def Allocate_def)

lemma Deallocate_Returns:
  "Deallocate (Ptr b i) h = Returns u h' \<longleftrightarrow> i = 0 \<and> block h b \<noteq> None \<and> h' = h[b := None]"
  by auto

lemma MoveOrCopy_Returns:
  assumes "MoveOrCopy T (Ptr bs i) n (Ptr bd j) h = Returns u h'"
    and "block h bs = Some cs" and "block h bd = Some cd" and "bs \<noteq> bd"
  shows "\<exists>ys zs. length ys = n \<and> length zs = n \<and>
           h' = h[bs := Some (splice cs i (map Some zs)), bd := Some (splice cd j (map Some ys))] \<and>
           (\<forall>k<n. i + k < length cs \<and> j + k < length cd \<and>
              (\<exists>x. cs ! (i + k) = Some x \<and> migrated T x = Some (ys ! k)))"
proof (cases "migrates_by_move T")
  case True
  with assms(1) have "uninitialized_move_n T (Ptr bs i) n (Ptr bd j) h = Returns u h'"
    by (simp add: MoveOrCopy_def migrates_by_move_def)
  from uninitialized_move_n_Returns[OF this assms(2-4)] True show ?thesis
    by (fastforce simp: migrated_def)
next
  case False
  with assms(1) have "uninitialized_copy_n T (Ptr bs i) n (Ptr bd j) h = Returns u h'"
    by (auto simp: MoveOrCopy_def migrates_by_move_def)
  from uninitialized_copy_n_Returns[OF this assms(2-4)] obtain ys where ys: "length ys = n"
    "h' = h[bd := Some (splice cd j (map Some ys))]"
    "\<forall>k<n. i + k < length cs \<and> j + k < length cd \<and>
              (\<exists>x. cs ! (i + k) = Some x \<and> copy_construct T x = Some (ys ! k))" by blast
  define zs where "zs = map (\<lambda>k. the (cs ! (i + k))) [0..<n]"
  have "splice cs i (map Some zs) = cs"
    by (rule splice_same) (use ys(3) in \<open>auto simp: zs_def\<close>)
  then have "h[bs := Some (splice cs i (map Some zs))] = h"
    using assms(2) by (simp add: block_update_same)
  with ys False show ?thesis
    by (intro exI[of _ ys] exI[of _ zs]) (auto simp: zs_def migrated_def)
qed

lemma MoveOrCopy_zero: "MoveOrCopy T p 0 q h = Returns () h"
  by (simp add: MoveOrCopy_def uninitialized_move_n_def uninitialized_copy_n_def)

lemma destroy_n_zero: "destroy_n p 0 h = Returns () h"
  by (simp add: destroy_n_def)

lemma list_all_None_replicate: "list_all (\<lambda>s. s = None) cs \<Longrightarrow> cs = replicate (length cs) None"
  by (induction cs) auto

lemma list_all_Some_map: "list_all (\<lambda>s. s \<noteq> None) cs \<Longrightarrow> map Some (map the cs) = cs"
  by (induction cs) auto

lemma invariant_cases [consumes 1, case_names empty block]:
  assumes "invariant h v"
  obtains "m_buffer (m_data v) = Null" "m_capacity (m_data v) = 0" "m_size v = 0"
      "elements h v = []"
  | b where "m_buffer (m_data v) = Ptr b 0"
      "block h b = Some (map Some (elements h v) @ replicate (m_capacity (m_data v) - m_size v) None)"
      "m_size v \<le> m_capacity (m_data v)" "0 < m_capacity (m_data v)"
      "length (elements h v) = m_size v"
proof (cases "m_buffer (m_data v)")
  case Null
  with assms that(1) show ?thesis by (auto simp: invariant_def elements_def buffer_cells_def)
next
  case (Ptr b i)
  with assms obtain cs where cs: "i = 0" "0 < m_capacity (m_data v)" "block h b = Some cs"
    "length cs = m_capacity (m_data v)" "list_all (\<lambda>s. s \<noteq> None) (take (m_size v) cs)"
    "list_all (\<lambda>s. s = None) (drop (m_size v) cs)" "m_size v \<le> m_capacity (m_data v)"
    by (auto simp: invariant_def split: option.splits)
  have el: "elements h v = map the (take (m_size v) cs)"
    using Ptr cs by (simp add: elements_def buffer_cells_def)
  have "cs = take (m_size v) cs @ drop (m_size v) cs" by simp
  also have "take (m_size v) cs = map Some (elements h v)"
    using list_all_Some_map[OF cs(5)] el by simp
  also have "drop (m_size v) cs = replicate (m_capacity (m_data v) - m_size v) None"
    using list_all_None_replicate[OF cs(6)] cs(4) by simp
  finally have "cs = map Some (elements h v) @ replicate (m_capacity (m_data v) - m_size v) None" .
  with cs(3) have blk: "block h b =
      Some (map Some (elements h v) @ replicate (m_capacity (m_data v) - m_size v) None)" by simp
  have len: "length (elements h v) = m_size v" unfolding el using cs(4,7) by simp
  from Ptr cs(1) have "m_buffer (m_data v) = Ptr b 0" by simp
  from that(2)[OF this blk cs(7) cs(2) len] show ?thesis .
qed

lemma invariant_block:
  assumes "m_buffer (m_data v) = Ptr b 0"
    and "block h b = Some (map Some xs @ replicate (c - length xs) None)"
    and "m_size v = length xs" and "m_capacity (m_data v) = c" and "length xs \<le> c" and "0 < c"
  shows "invariant h v" and "elements h v = xs"
  using assms
  by (auto simp: invariant_def elements_def buffer_cells_def list_all_iff comp_def dest: in_set_takeD)

lemma invariant_empty:
  assumes "m_buffer (m_data v) = Null" and "m_size v = 0" and "m_capacity (m_data v) = 0"
  shows "invariant h v" and "elements h v = []"
  using assms by (auto simp: invariant_def elements_def buffer_cells_def)

lemma Reserve_Returns:
  assumes inv: "invariant h v" and n: "Capacity v < n"
    and ret: "Reserve T n (h, v) = Returns u (h', v')"
  shows "Capacity v' = n \<and> Size v' = Size v \<and> invariant h' v' \<and>
         list_all2 (\<lambda>x y. migrated T x = Some y) (elements h v) (elements h' v')"
proof -
  from n have n0: "n \<noteq> 0" and nle: "\<not> n \<le> RawMemory_Capacity (m_data v)"
    by (auto simp: Capacity_def)
  let ?new = "\<lparr>m_buffer = Ptr (length h) 0, m_capacity = n\<rparr>"
  let ?h1 = "h @ [Some (replicate n None)]"
  from ret nle n0 obtain h2 h3 where
    mig: "MoveOrCopy T (m_buffer (m_data v)) (m_size v) (Ptr (length h) 0) ?h1 = Returns () h2"
    and des: "destroy_n (m_buffer (m_data v)) (m_size v) h2 = Returns () h3"
    and dea: "Deallocate (m_buffer (m_data v)) h3 = Returns () h'"
    and v': "v' = v\<lparr>m_data := ?new\<rparr>"
    by (auto simp: Returns_simps RawMemory_new_Returns GetAddress_def RawMemory_Swap_def
        RawMemory_destroy_def)
  from inv show ?thesis
  proof (cases rule: invariant_cases)
    case empty
    with mig des dea have "h' = ?h1"
      by (simp add: MoveOrCopy_zero destroy_n_zero)
    with v' empty n0 show ?thesis
      using invariant_block[of v' "length h" h' "[]" n]
      by (simp add: Capacity_def RawMemory_Capacity_def Size_def)
  next
    case (block b)
    let ?xs = "elements h v" and ?c = "m_capacity (m_data v)"
    let ?cs = "map Some ?xs @ replicate (?c - m_size v) None"
    have b: "b < length h" using block(2) by (rule block_Some_length)
    have bs: "block ?h1 b = Some ?cs" using block(2) b by simp
    have bd: "block ?h1 (length h) = Some (replicate n None)" by simp
    from MoveOrCopy_Returns[OF mig[unfolded block(1)] bs bd] b
    obtain ys zs where ys: "length ys = m_size v" "length zs = m_size v"
      "h2 = ?h1[b := Some (splice ?cs 0 (map Some zs)),
                length h := Some (splice (replicate n None) 0 (map Some ys))]"
      "\<forall>k<m_size v. \<exists>x. ?cs ! k = Some x \<and> migrated T x = Some (ys ! k)"
      by auto
    have b2: "block h2 b = Some (splice ?cs 0 (map Some zs))" using ys(3) b by simp
    from destroy_n_Returns[OF des[unfolded block(1)] b2]
    have h3: "h3 = h2[b := Some (splice (splice ?cs 0 (map Some zs)) 0 (replicate (m_size v) None))]"
      by simp
    from dea[unfolded block(1)] have h': "h' = h3[b := None]" by (simp split: if_splits)
    have new: "block h' (length h) = Some (map Some ys @ replicate (n - length ys) None)"
      using h' h3 ys(1,3) b n block(3)
      by (simp add: splice_replicate_0 Capacity_def RawMemory_Capacity_def)
    have le: "length ys \<le> n" using ys(1) block(3) n by (simp add: Capacity_def RawMemory_Capacity_def)
    from invariant_block[of v' "length h" h' ys n] new v' ys(1) le n0
    have "invariant h' v'" "elements h' v' = ys" by simp_all
    moreover have "list_all2 (\<lambda>x y. migrated T x = Some y) ?xs ys"
      using ys(1,4) block(5) by (auto simp: list_all2_conv_all_nth nth_append)
    ultimately show ?thesis using v'
      by (simp add: Capacity_def RawMemory_Capacity_def Size_def)
  qed
qed




lemma value_semantics_int_type: "value_semantics int_type"
  by (simp add: value_semantics_def int_type_def)


subsection \<open>Construction that throws\<close>

lemma new_object_Throws:
  assumes "new_object T args h = Throws e hx"
  shows "new_object T args (h @ [blk]) = Throws e (h @ [blk])"
proof (cases args)
  case (Args g)
  with assms show ?thesis by (auto split: option.splits)
next
  case (Lvalue p)
  show ?thesis
  proof (cases p)
    case Null
    with assms Lvalue show ?thesis by (simp add: copy_object_def read_obj_def)
  next
    case (Ptr b i)
    with assms Lvalue have "block h b \<noteq> None"
      by (auto simp: copy_object_def read_obj_def split: option.splits)
    then have "block (h @ [blk]) b = block h b" by (auto simp: block_def nth_append)
    with assms Lvalue Ptr show ?thesis
      by (auto simp: copy_object_def read_obj_def split: option.splits if_splits)
  qed
next
  case (Rvalue p)
  show ?thesis
  proof (cases p)
    case Null
    with assms Rvalue show ?thesis by (simp add: move_object_def read_obj_def)
  next
    case (Ptr b i)
    with assms Rvalue have "block h b \<noteq> None"
      by (auto simp: move_object_def read_obj_def split: option.splits)
    then have "block (h @ [blk]) b = block h b" by (auto simp: block_def nth_append)
    with assms Rvalue Ptr show ?thesis
      by (auto simp: move_object_def read_obj_def write_obj_def split: option.splits if_splits)
  qed
qed

lemma block_append_None: "block (h @ [None]) b = block h b"
  by (auto simp: block_def nth_append)

lemma EmplaceBack_full_Throws:
  assumes full: "m_size v = Capacity v" and fails: "new_object T args h = Throws e hx"
  shows "EmplaceBack T args (h, v) =
           (if can_allocate T (if m_size v = 0 then 1 else m_size v * 2)
            then Throws e (h @ [None], v) else Throws bad_alloc (h, v))"
proof -
  let ?n = "if m_size v = 0 then 1 else m_size v * 2"
  have n0: "?n \<noteq> 0" by simp
  show ?thesis
  proof (cases "can_allocate T ?n")
    case False
    then have "RawMemory_new T ?n h = Throws bad_alloc h"
      using n0 by (simp add: RawMemory_new_def Allocate_def del: One_nat_def)
    then have "EmplaceBack T args (h, v) = Throws bad_alloc (h, v)"
      by (subst EmplaceBack.simps, subst if_P[OF full]) (simp only: then_on.simps)
    with False show ?thesis by (simp only: if_False)
  next
    case True
    let ?h1 = "h @ [Some (replicate ?n None)]"
    have new: "RawMemory_new T ?n h = Returns \<lparr>m_buffer = Ptr (length h) 0, m_capacity = ?n\<rparr> ?h1"
      using True n0 by (simp add: RawMemory_new_def Allocate_def del: One_nat_def)
    have thr: "new_object T args ?h1 = Throws e ?h1" using fails by (rule new_object_Throws)
    have "?h1[length h := None] = h @ [None]" by simp
    then have dea: "RawMemory_destroy \<lparr>m_buffer = Ptr (length h) 0, m_capacity = ?n\<rparr> ?h1
        = Returns () (h @ [None])"
      by (simp add: RawMemory_destroy_def)
    have "EmplaceBack T args (h, v) = Throws e (h @ [None], v)"
      by (subst EmplaceBack.simps, subst if_P[OF full])
        (simp only: new thr dea then_on.simps and_then.simps unwinding.simps outcome.case)
    with True show ?thesis by (simp only: if_True)
  qed
qed

lemma elements_cong_block: "(\<And>b. block h' b = block h b) \<Longrightarrow> elements h' v = elements h v"
  by (cases "m_buffer (m_data v)") (simp_all add: elements_def buffer_cells_def)

lemma invariant_cong_block: "(\<And>b. block h' b = block h b) \<Longrightarrow> invariant h' v = invariant h v"
  by (cases "m_buffer (m_data v)") (simp_all add: invariant_def)

text \<open>
  Claim C1. On a vector with \<^verbatim>\<open>Size() == Capacity()\<close>, when the construction of the new
  element throws, \<^verbatim>\<open>EmplaceBack\<close> leaves by an exception with the vector object as it was
  (size, capacity, buffer) and every block of the heap as it was, so the elements are the
  same: the new element is constructed in the new buffer before any element is migrated.
  \<^verbatim>\<open>PushBack\<close>, by copy and by move, does the same.
\<close>

theorem EmplaceBack_strong_guarantee:
  assumes "Size v = Capacity v"
  shows "(new_object T args h = Throws e hx \<longrightarrow>
            (\<exists>e' h'. EmplaceBack T args (h, v) = Throws e' (h', v) \<and>
                     (\<forall>b. block h' b = block h b) \<and> elements h' v = elements h v)) \<and>
         (copy_object T val h = Throws e hx \<longrightarrow>
            (\<exists>e' h'. PushBack T val (h, v) = Throws e' (h', v) \<and>
                     (\<forall>b. block h' b = block h b) \<and> elements h' v = elements h v)) \<and>
         (move_object T val h = Throws e hx \<longrightarrow>
            (\<exists>e' h'. PushBack_move T val (h, v) = Throws e' (h', v) \<and>
                     (\<forall>b. block h' b = block h b) \<and> elements h' v = elements h v))"
proof -
  have full: "m_size v = Capacity v" using assms by (simp add: Size_def)
  have same: "elements (h @ [None]) v = elements h v"
    by (rule elements_cong_block) (rule block_append_None)
  have *: "\<exists>e' h'. EmplaceBack T a (h, v) = Throws e' (h', v) \<and>
                     (\<forall>b. block h' b = block h b) \<and> elements h' v = elements h v"
    if "new_object T a h = Throws e hx" for a
  proof (cases "can_allocate T (if m_size v = 0 then 1 else m_size v * 2)")
    case True
    with EmplaceBack_full_Throws[OF full that]
    have "EmplaceBack T a (h, v) = Throws e (h @ [None], v)" by (simp only: if_True)
    with same show ?thesis using block_append_None[of h] by blast
  next
    case False
    with EmplaceBack_full_Throws[OF full that]
    have "EmplaceBack T a (h, v) = Throws bad_alloc (h, v)" by (simp only: if_False)
    then show ?thesis by blast
  qed
  show ?thesis
  proof (intro conjI impI)
    assume "new_object T args h = Throws e hx"
    then show "\<exists>e' h'. EmplaceBack T args (h, v) = Throws e' (h', v) \<and>
                     (\<forall>b. block h' b = block h b) \<and> elements h' v = elements h v" by (rule *)
  next
    assume "copy_object T val h = Throws e hx"
    then have "new_object T (Lvalue val) h = Throws e hx" by simp
    from *[OF this] show "\<exists>e' h'. PushBack T val (h, v) = Throws e' (h', v) \<and>
                     (\<forall>b. block h' b = block h b) \<and> elements h' v = elements h v"
      by (auto simp: PushBack_def)
  next
    assume "move_object T val h = Throws e hx"
    then have "new_object T (Rvalue val) h = Throws e hx" by simp
    from *[OF this] show "\<exists>e' h'. PushBack_move T val (h, v) = Throws e' (h', v) \<and>
                     (\<forall>b. block h' b = block h b) \<and> elements h' v = elements h v"
      by (auto simp: PushBack_move_def)
  qed
qed

theorem EmplaceBack_strong_guarantee_witness:
  "Size \<lparr>m_data = \<lparr>m_buffer = Ptr 0 0, m_capacity = 2\<rparr>, m_size = 2\<rparr>
     = Capacity \<lparr>m_data = \<lparr>m_buffer = Ptr 0 0, m_capacity = 2\<rparr>, m_size = 2\<rparr>
   \<and> new_object throwing_type (Args (- 1)) [Some [Some 1, Some 2], Some [Some 13]]
       = Throws element_exception [Some [Some 1, Some 2], Some [Some 13]]
   \<and> copy_object throwing_type (Ptr 1 0) [Some [Some 1, Some 2], Some [Some 13]]
       = Throws element_exception [Some [Some 1, Some 2], Some [Some 13]]
   \<and> move_object throwing_type (Ptr 1 0) [Some [Some 1, Some 2], Some [Some 13]]
       = Throws element_exception [Some [Some 1, Some 2], Some [Some 13]]
   \<and> (\<exists>e' h'. EmplaceBack throwing_type (Args (- 1))
                 ([Some [Some 1, Some 2], Some [Some 13]],
                  \<lparr>m_data = \<lparr>m_buffer = Ptr 0 0, m_capacity = 2\<rparr>, m_size = 2\<rparr>)
               = Throws e' (h', \<lparr>m_data = \<lparr>m_buffer = Ptr 0 0, m_capacity = 2\<rparr>, m_size = 2\<rparr>)
             \<and> (\<forall>b. block h' b = block [Some [Some 1, Some 2], Some [Some 13]] b))
   \<and> (\<exists>e' h'. PushBack throwing_type (Ptr 1 0)
                 ([Some [Some 1, Some 2], Some [Some 13]],
                  \<lparr>m_data = \<lparr>m_buffer = Ptr 0 0, m_capacity = 2\<rparr>, m_size = 2\<rparr>)
               = Throws e' (h', \<lparr>m_data = \<lparr>m_buffer = Ptr 0 0, m_capacity = 2\<rparr>, m_size = 2\<rparr>)
             \<and> (\<forall>b. block h' b = block [Some [Some 1, Some 2], Some [Some 13]] b))
   \<and> (\<exists>e' h'. PushBack_move throwing_type (Ptr 1 0)
                 ([Some [Some 1, Some 2], Some [Some 13]],
                  \<lparr>m_data = \<lparr>m_buffer = Ptr 0 0, m_capacity = 2\<rparr>, m_size = 2\<rparr>)
               = Throws e' (h', \<lparr>m_data = \<lparr>m_buffer = Ptr 0 0, m_capacity = 2\<rparr>, m_size = 2\<rparr>)
             \<and> (\<forall>b. block h' b = block [Some [Some 1, Some 2], Some [Some 13]] b))"
proof -
  let ?h = "[Some [Some 1, Some 2], Some [Some 13]] :: int heap"
  let ?v = "\<lparr>m_data = \<lparr>m_buffer = Ptr 0 0, m_capacity = 2\<rparr>, m_size = 2\<rparr>"
  have full: "Size ?v = Capacity ?v" by code_simp
  have 1: "new_object throwing_type (Args (- 1)) ?h = Throws element_exception ?h" by code_simp
  have 2: "copy_object throwing_type (Ptr 1 0) ?h = Throws element_exception ?h" by code_simp
  have 3: "move_object throwing_type (Ptr 1 0) ?h = Throws element_exception ?h" by code_simp
  from EmplaceBack_strong_guarantee[OF full, of throwing_type "Args (- 1)" ?h element_exception ?h
      "Ptr 1 0"] 1 2 3 full
  show ?thesis by blast
qed

lemma EmplaceBack_Returns_shape:
  assumes "EmplaceBack T args (h, v) = Returns r (h', v')"
  shows "m_size v' = m_size v + 1 \<and>
         Capacity v' = (if m_size v = Capacity v then max 1 (2 * Capacity v) else Capacity v)"
proof (cases "m_size v = Capacity v")
  case True
  with assms show ?thesis
    by (auto simp: Returns_simps RawMemory_new_Returns Capacity_def RawMemory_Capacity_def
        RawMemory_Swap_def split: if_splits)
next
  case False
  with assms show ?thesis
    by (auto simp: Returns_simps Capacity_def RawMemory_Capacity_def)
qed

lemma Emplace_Returns_shape:
  assumes "Emplace T pos args (h, v) = Returns r (h', v')"
  shows "m_size v' = m_size v + 1 \<and>
         Capacity v' = (if m_size v = Capacity v then max 1 (2 * Capacity v) else Capacity v)"
proof (cases "m_size v = Capacity v")
  case True
  with assms show ?thesis
    by (auto simp: Returns_simps RawMemory_new_Returns Capacity_def RawMemory_Capacity_def
        RawMemory_Swap_def split: if_splits)
next
  case False
  with assms show ?thesis
    by (auto simp: Returns_simps Capacity_def RawMemory_Capacity_def)
qed

lemma EmplaceBack_all_Returns:
  assumes "EmplaceBack_all T as (h, v) = Returns u (h', v')"
    and "(m_size v = 0 \<and> Capacity v = 0) \<or>
         (\<exists>k. Capacity v = 2 ^ k \<and> m_size v \<le> 2 ^ k \<and> 2 ^ k < 2 * m_size v)"
  shows "m_size v' = m_size v + length as \<and>
         ((m_size v' = 0 \<and> Capacity v' = 0) \<or>
          (\<exists>k. Capacity v' = 2 ^ k \<and> m_size v' \<le> 2 ^ k \<and> 2 ^ k < 2 * m_size v'))"
  using assms
proof (induction as arbitrary: h v)
  case Nil
  then show ?case by simp
next
  case (Cons a as)
  from Cons.prems(1) obtain r h1 v1 where step: "EmplaceBack T a (h, v) = Returns r (h1, v1)"
    and rest: "EmplaceBack_all T as (h1, v1) = Returns u (h', v')"
    by (auto simp: and_then_Returns simp del: EmplaceBack.simps)
  note sh = EmplaceBack_Returns_shape[OF step]
  have "(m_size v1 = 0 \<and> Capacity v1 = 0) \<or>
         (\<exists>k. Capacity v1 = 2 ^ k \<and> m_size v1 \<le> 2 ^ k \<and> 2 ^ k < 2 * m_size v1)"
  proof (cases "m_size v = Capacity v")
    case False
    with Cons.prems(2) sh show ?thesis by auto
  next
    case True
    from Cons.prems(2) show ?thesis
    proof
      assume "m_size v = 0 \<and> Capacity v = 0"
      with sh have "Capacity v1 = 2 ^ 0 \<and> m_size v1 \<le> 2 ^ 0 \<and> 2 ^ 0 < 2 * m_size v1" by simp
      then show ?thesis by blast
    next
      assume "\<exists>k. Capacity v = 2 ^ k \<and> m_size v \<le> 2 ^ k \<and> 2 ^ k < 2 * m_size v"
      then obtain k where k: "Capacity v = 2 ^ k" "m_size v \<le> 2 ^ k" by blast
      with sh True have "Capacity v1 = 2 ^ Suc k \<and> m_size v1 \<le> 2 ^ Suc k \<and> 2 ^ Suc k < 2 * m_size v1"
        by (simp add: max_def)
      then show ?thesis by blast
    qed
  qed
  from Cons.IH[OF rest this] have A: "m_size v' = m_size v1 + length as"
    and B: "(m_size v' = 0 \<and> Capacity v' = 0) \<or>
          (\<exists>k. Capacity v' = 2 ^ k \<and> m_size v' \<le> 2 ^ k \<and> 2 ^ k < 2 * m_size v')" by blast+
  from A sh have "m_size v' = m_size v + length (a # as)" by simp
  with B show ?case by blast
qed

text \<open>
  Claim C2. An appending or inserting operation (\<^verbatim>\<open>EmplaceBack\<close>, \<^verbatim>\<open>PushBack\<close>,
  \<^verbatim>\<open>Emplace\<close>, \<^verbatim>\<open>Insert\<close>) that is called with \<^verbatim>\<open>Size() == Capacity()\<close> and returns
  leaves the capacity \<open>max 1 (2 * old capacity)\<close>. After a run of \<open>n\<close> appends to an empty
  vector the size is \<open>n\<close> and, for \<open>n > 0\<close>, the capacity is the power of two \<open>2 ^ k\<close>
  with \<open>2 ^ k / 2 < n \<le> 2 ^ k\<close>: the capacities seen are 1, 2, 4, 8, ...
\<close>

theorem growth_doubles_capacity:
  "(Size v = Capacity v \<and> EmplaceBack T args (h, v) = Returns r (h', v') \<longrightarrow>
      Capacity v' = max 1 (2 * Capacity v)) \<and>
   (Size v = Capacity v \<and> PushBack T val (h, v) = Returns () (h', v') \<longrightarrow>
      Capacity v' = max 1 (2 * Capacity v)) \<and>
   (Size v = Capacity v \<and> PushBack_move T val (h, v) = Returns () (h', v') \<longrightarrow>
      Capacity v' = max 1 (2 * Capacity v)) \<and>
   (Size v = Capacity v \<and> Emplace T pos args (h, v) = Returns r (h', v') \<longrightarrow>
      Capacity v' = max 1 (2 * Capacity v)) \<and>
   (Size v = Capacity v \<and> Insert T pos val (h, v) = Returns r (h', v') \<longrightarrow>
      Capacity v' = max 1 (2 * Capacity v)) \<and>
   (Size v = Capacity v \<and> Insert_move T pos val (h, v) = Returns r (h', v') \<longrightarrow>
      Capacity v' = max 1 (2 * Capacity v)) \<and>
   (as \<noteq> [] \<and> EmplaceBack_all T as (h, Vector_default) = Returns () (h', v') \<longrightarrow>
      Size v' = length as \<and>
      (\<exists>k. Capacity v' = 2 ^ k \<and> length as \<le> 2 ^ k \<and> 2 ^ k < 2 * length as))"
proof -
  have eb: "Capacity w' = max 1 (2 * Capacity v)"
    if "Size v = Capacity v" "EmplaceBack T a (h, v) = Returns q (g, w')" for a q g w'
    using EmplaceBack_Returns_shape[OF that(2)] that(1) by (simp add: Size_def)
  have em: "Capacity w' = max 1 (2 * Capacity v)"
    if "Size v = Capacity v" "Emplace T pos a (h, v) = Returns q (g, w')" for a q g w'
    using Emplace_Returns_shape[OF that(2)] that(1) by (simp add: Size_def)
  have run: "Size v' = length as \<and>
      (\<exists>k. Capacity v' = 2 ^ k \<and> length as \<le> 2 ^ k \<and> 2 ^ k < 2 * length as)"
    if "as \<noteq> []" "EmplaceBack_all T as (h, Vector_default) = Returns () (h', v')"
  proof -
    have "m_size Vector_default = 0 \<and> Capacity Vector_default = 0"
      by (simp add: Vector_default_def Capacity_def RawMemory_Capacity_def RawMemory_default_def)
    then have "m_size v' = m_size Vector_default + length as \<and>
         ((m_size v' = 0 \<and> Capacity v' = 0) \<or>
          (\<exists>k. Capacity v' = 2 ^ k \<and> m_size v' \<le> 2 ^ k \<and> 2 ^ k < 2 * m_size v'))"
      by (intro EmplaceBack_all_Returns[OF that(2)]) blast
    with that(1) show ?thesis by (auto simp: Size_def Vector_default_def)
  qed
  have pb: "Capacity v' = max 1 (2 * Capacity v)"
    if "Size v = Capacity v" "PushBack T val (h, v) = Returns () (h', v')"
  proof -
    from that(2) obtain q where "EmplaceBack T (Lvalue val) (h, v) = Returns q (h', v')"
      unfolding PushBack_def and_then_Returns by blast
    from eb[OF that(1) this] show ?thesis .
  qed
  have pm: "Capacity v' = max 1 (2 * Capacity v)"
    if "Size v = Capacity v" "PushBack_move T val (h, v) = Returns () (h', v')"
  proof -
    from that(2) obtain q where "EmplaceBack T (Rvalue val) (h, v) = Returns q (h', v')"
      unfolding PushBack_move_def and_then_Returns by blast
    from eb[OF that(1) this] show ?thesis .
  qed
  have ins: "Capacity v' = max 1 (2 * Capacity v)"
    if "Size v = Capacity v" "Insert T pos val (h, v) = Returns r (h', v')"
    using em[OF that(1) that(2)[unfolded Insert_def]] .
  have insm: "Capacity v' = max 1 (2 * Capacity v)"
    if "Size v = Capacity v" "Insert_move T pos val (h, v) = Returns r (h', v')"
    using em[OF that(1) that(2)[unfolded Insert_move_def]] .
  show ?thesis
    using eb[of args r h' v'] em[of args r h' v'] pb pm ins insm run by blast
qed

theorem growth_doubles_capacity_witness:
  "Size \<lparr>m_data = \<lparr>m_buffer = Ptr 0 0, m_capacity = 2\<rparr>, m_size = 2\<rparr>
     = Capacity \<lparr>m_data = \<lparr>m_buffer = Ptr 0 0, m_capacity = 2\<rparr>, m_size = 2\<rparr>
   \<and> EmplaceBack int_type (Args 3)
        ([Some [Some 1, Some 2], Some [Some 7]],
         \<lparr>m_data = \<lparr>m_buffer = Ptr 0 0, m_capacity = 2\<rparr>, m_size = 2\<rparr>)
       = Returns (Ptr 2 2)
          ([None, Some [Some 7], Some [Some 1, Some 2, Some 3, None]],
           \<lparr>m_data = \<lparr>m_buffer = Ptr 2 0, m_capacity = 4\<rparr>, m_size = 3\<rparr>)
   \<and> PushBack int_type (Ptr 1 0)
        ([Some [Some 1, Some 2], Some [Some 7]],
         \<lparr>m_data = \<lparr>m_buffer = Ptr 0 0, m_capacity = 2\<rparr>, m_size = 2\<rparr>)
       = Returns ()
          ([None, Some [Some 7], Some [Some 1, Some 2, Some 7, None]],
           \<lparr>m_data = \<lparr>m_buffer = Ptr 2 0, m_capacity = 4\<rparr>, m_size = 3\<rparr>)
   \<and> PushBack_move int_type (Ptr 1 0)
        ([Some [Some 1, Some 2], Some [Some 7]],
         \<lparr>m_data = \<lparr>m_buffer = Ptr 0 0, m_capacity = 2\<rparr>, m_size = 2\<rparr>)
       = Returns ()
          ([None, Some [Some 7], Some [Some 1, Some 2, Some 7, None]],
           \<lparr>m_data = \<lparr>m_buffer = Ptr 2 0, m_capacity = 4\<rparr>, m_size = 3\<rparr>)
   \<and> Emplace int_type (Ptr 0 1) (Args 3)
        ([Some [Some 1, Some 2], Some [Some 7]],
         \<lparr>m_data = \<lparr>m_buffer = Ptr 0 0, m_capacity = 2\<rparr>, m_size = 2\<rparr>)
       = Returns (Ptr 2 1)
          ([None, Some [Some 7], Some [Some 1, Some 3, Some 2, None]],
           \<lparr>m_data = \<lparr>m_buffer = Ptr 2 0, m_capacity = 4\<rparr>, m_size = 3\<rparr>)
   \<and> Insert int_type (Ptr 0 1) (Ptr 1 0)
        ([Some [Some 1, Some 2], Some [Some 7]],
         \<lparr>m_data = \<lparr>m_buffer = Ptr 0 0, m_capacity = 2\<rparr>, m_size = 2\<rparr>)
       = Returns (Ptr 2 1)
          ([None, Some [Some 7], Some [Some 1, Some 7, Some 2, None]],
           \<lparr>m_data = \<lparr>m_buffer = Ptr 2 0, m_capacity = 4\<rparr>, m_size = 3\<rparr>)
   \<and> Insert_move int_type (Ptr 0 1) (Ptr 1 0)
        ([Some [Some 1, Some 2], Some [Some 7]],
         \<lparr>m_data = \<lparr>m_buffer = Ptr 0 0, m_capacity = 2\<rparr>, m_size = 2\<rparr>)
       = Returns (Ptr 2 1)
          ([None, Some [Some 7], Some [Some 1, Some 7, Some 2, None]],
           \<lparr>m_data = \<lparr>m_buffer = Ptr 2 0, m_capacity = 4\<rparr>, m_size = 3\<rparr>)
   \<and> Capacity \<lparr>m_data = \<lparr>m_buffer = Ptr 2 0, m_capacity = 4\<rparr>, m_size = 3\<rparr>
       = max 1 (2 * Capacity \<lparr>m_data = \<lparr>m_buffer = Ptr 0 0, m_capacity = 2\<rparr>, m_size = 2\<rparr>)
   \<and> [Args 1, Args 2, Args 3, Args 4, Args 5] \<noteq> []
   \<and> EmplaceBack_all int_type [Args 1, Args 2, Args 3, Args 4, Args 5] ([], Vector_default)
       = Returns ()
          ([None, None, None, Some [Some 1, Some 2, Some 3, Some 4, Some 5, None, None, None]],
           \<lparr>m_data = \<lparr>m_buffer = Ptr 3 0, m_capacity = 8\<rparr>, m_size = 5\<rparr>)
   \<and> Size \<lparr>m_data = \<lparr>m_buffer = Ptr 3 0, m_capacity = 8\<rparr>, m_size = 5\<rparr>
       = length [Args (1::int), Args 2, Args 3, Args 4, Args 5]
   \<and> (\<exists>k. Capacity \<lparr>m_data = \<lparr>m_buffer = Ptr 3 0, m_capacity = 8\<rparr>, m_size = 5\<rparr> = 2 ^ k
          \<and> length [Args (1::int), Args 2, Args 3, Args 4, Args 5] \<le> 2 ^ k
          \<and> 2 ^ k < 2 * length [Args (1::int), Args 2, Args 3, Args 4, Args 5])"
proof -
  let ?h = "[Some [Some 1, Some 2], Some [Some 7]] :: int heap"
  let ?v = "\<lparr>m_data = \<lparr>m_buffer = Ptr 0 0, m_capacity = 2\<rparr>, m_size = 2\<rparr>"
  let ?v' = "\<lparr>m_data = \<lparr>m_buffer = Ptr 2 0, m_capacity = 4\<rparr>, m_size = 3\<rparr>"
  let ?h1 = "[None, Some [Some 7], Some [Some 1, Some 2, Some 3, None]] :: int heap"
  let ?h2 = "[None, Some [Some 7], Some [Some 1, Some 2, Some 7, None]] :: int heap"
  let ?h3 = "[None, Some [Some 7], Some [Some 1, Some 3, Some 2, None]] :: int heap"
  let ?h4 = "[None, Some [Some 7], Some [Some 1, Some 7, Some 2, None]] :: int heap"
  let ?as = "[Args 1, Args 2, Args 3, Args 4, Args 5] :: int ctor_args list"
  let ?h5 = "[None, None, None, Some [Some 1, Some 2, Some 3, Some 4, Some 5, None, None, None]]
              :: int heap"
  let ?v5 = "\<lparr>m_data = \<lparr>m_buffer = Ptr 3 0, m_capacity = 8\<rparr>, m_size = 5\<rparr>"
  have full: "Size ?v = Capacity ?v" by code_simp
  have r1: "EmplaceBack int_type (Args 3) (?h, ?v) = Returns (Ptr 2 2) (?h1, ?v')" by code_simp
  have r2: "PushBack int_type (Ptr 1 0) (?h, ?v) = Returns () (?h2, ?v')" by code_simp
  have r3: "PushBack_move int_type (Ptr 1 0) (?h, ?v) = Returns () (?h2, ?v')" by code_simp
  have r4: "Emplace int_type (Ptr 0 1) (Args 3) (?h, ?v) = Returns (Ptr 2 1) (?h3, ?v')" by code_simp
  have r5: "Insert int_type (Ptr 0 1) (Ptr 1 0) (?h, ?v) = Returns (Ptr 2 1) (?h4, ?v')" by code_simp
  have r6: "Insert_move int_type (Ptr 0 1) (Ptr 1 0) (?h, ?v) = Returns (Ptr 2 1) (?h4, ?v')"
    by code_simp
  have ne: "?as \<noteq> []" by simp
  have r7: "EmplaceBack_all int_type ?as ([], Vector_default) = Returns () (?h5, ?v5)" by code_simp
  from growth_doubles_capacity[where T = int_type and v = ?v and args = "Args 3" and h = ?h
      and r = "Ptr 2 2" and h' = ?h1 and v' = ?v'] full r1
  have c: "Capacity ?v' = max 1 (2 * Capacity ?v)" by blast
  from growth_doubles_capacity[where T = int_type and as = ?as and h = "[]" and h' = ?h5 and v' = ?v5]
    ne r7
  have d: "Size ?v5 = length ?as \<and>
      (\<exists>k. Capacity ?v5 = 2 ^ k \<and> length ?as \<le> 2 ^ k \<and> 2 ^ k < 2 * length ?as)" by blast
  from full r1 r2 r3 r4 r5 r6 c ne r7 d show ?thesis by blast
qed

subsection \<open>Capacity never goes down\<close>

lemma cnb_Returns: "Capacity v \<le> Capacity v' \<Longrightarrow> capacity_not_below v (Returns r (h', v'))"
  by (simp add: capacity_not_below_def)

lemma cnb_Fault: "capacity_not_below v (Fault x)"
  by (simp add: capacity_not_below_def)

lemma cnb_then_on:
  assumes "Capacity v \<le> Capacity w"
    and "\<And>r h'. m = Returns r h' \<Longrightarrow> capacity_not_below v (f r h')"
  shows "capacity_not_below v (then_on w m f)"
  using assms by (cases m) (auto simp: capacity_not_below_def)

lemma cnb_and_then:
  assumes "capacity_not_below v m"
    and "\<And>r h' v'. m = Returns r (h', v') \<Longrightarrow> Capacity v \<le> Capacity v' \<Longrightarrow>
           capacity_not_below v (f r (h', v'))"
  shows "capacity_not_below v (and_then m f)"
  using assms by (cases m) (auto simp: capacity_not_below_def)

lemma cnb_option:
  assumes "\<And>y. x = Some y \<Longrightarrow> capacity_not_below v (f y)"
  shows "capacity_not_below v (case x of None \<Rightarrow> Fault e | Some y \<Rightarrow> f y)"
  using assms by (cases x) (auto simp: cnb_Fault)

lemma cnb_trans:
  assumes "capacity_not_below w m" and "Capacity v \<le> Capacity w"
  shows "capacity_not_below v m"
  using assms by (auto simp: capacity_not_below_def split: outcome.splits)

lemma Reserve_cnb: "capacity_not_below v (Reserve T n (h, v))"
proof (cases "n \<le> RawMemory_Capacity (m_data v)")
  case True
  then show ?thesis by (simp add: cnb_Returns)
next
  case False
  then have "Capacity v \<le> n" by (simp add: Capacity_def)
  with False show ?thesis
    by (auto simp: RawMemory_new_Returns RawMemory_Swap_def Capacity_def RawMemory_Capacity_def
        intro!: cnb_then_on cnb_Returns split: if_splits)
qed

lemma PopBack_cnb: "capacity_not_below v (PopBack (h, v))"
  by (auto simp: Capacity_def intro!: cnb_then_on cnb_Returns cnb_Fault)

lemma EmplaceBack_cnb: "capacity_not_below v (EmplaceBack T args (h, v))"
proof (cases "m_size v = Capacity v")
  case True
  then show ?thesis
    by (auto simp: RawMemory_new_Returns RawMemory_Swap_def Capacity_def RawMemory_Capacity_def
        intro!: cnb_then_on cnb_Returns cnb_option split: if_splits)
next
  case False
  then show ?thesis
    by (auto simp: Capacity_def RawMemory_Capacity_def intro!: cnb_then_on cnb_Returns cnb_option)
qed

lemma Emplace_cnb: "capacity_not_below v (Emplace T pos args (h, v))"
proof (cases "m_size v = Capacity v")
  case True
  then show ?thesis
    by (auto simp: RawMemory_new_Returns RawMemory_Swap_def Capacity_def RawMemory_Capacity_def
        intro!: cnb_then_on cnb_Returns cnb_option split: if_splits)
next
  case False
  then show ?thesis
    by (auto simp: Capacity_def RawMemory_Capacity_def intro!: cnb_then_on cnb_Returns cnb_option)
qed

lemma Erase_cnb: "capacity_not_below v (Erase T p (h, v))"
proof (cases "Vector_begin v = Vector_end v")
  case True
  then show ?thesis by (simp add: cnb_Returns)
next
  case False
  then show ?thesis
    by (auto simp: simp del: PopBack.simps
        intro!: cnb_and_then cnb_then_on cnb_Returns cnb_trans[OF PopBack_cnb])
qed

lemma Resize_cnb: "capacity_not_below v (Resize T n (h, v))"
proof (cases "n > m_size v")
  case False
  then show ?thesis by (auto simp: Capacity_def intro!: cnb_then_on cnb_Returns)
next
  case True
  then show ?thesis
    by (auto simp: Capacity_def simp del: Reserve.simps
        intro!: cnb_and_then cnb_then_on cnb_Returns Reserve_cnb[unfolded Capacity_def])
qed

lemma Vector_copy_Returns_capacity:
  "Vector_copy T other h = Returns temp h' \<Longrightarrow> m_capacity (m_data temp) = m_size other"
  by (auto simp: Vector_copy_def Returns_simps RawMemory_new_Returns split: if_splits)

lemma copy_assignment_cnb: "capacity_not_below v (copy_assignment T other (h, v))"
proof (cases "m_size (deref other v) > RawMemory_Capacity (m_data v)")
  case True
  then show ?thesis
    by (auto simp: Capacity_def RawMemory_Capacity_def Swap_def RawMemory_Swap_def
        dest!: Vector_copy_Returns_capacity
        intro!: cnb_and_then cnb_then_on cnb_Returns)
next
  case False
  then show ?thesis
    by (auto simp: Capacity_def RawMemory_Capacity_def
        intro!: cnb_and_then cnb_then_on cnb_Returns)
qed

lemma PushBack_cnb: "capacity_not_below v (PushBack T val (h, v))"
  unfolding PushBack_def
  by (rule cnb_and_then[OF EmplaceBack_cnb]) (simp add: cnb_Returns)

lemma PushBack_move_cnb: "capacity_not_below v (PushBack_move T val (h, v))"
  unfolding PushBack_move_def
  by (rule cnb_and_then[OF EmplaceBack_cnb]) (simp add: cnb_Returns)

lemma splice_destroy_tail:
  assumes "n \<le> length xs" and "length xs \<le> c"
  shows "splice (map Some xs @ replicate (c - length xs) None) n
           (replicate (length xs - n) None)
         = map Some (take n xs) @ replicate (c - length (take n xs)) None"
proof -
  have "replicate (length xs - n) None @ replicate (c - length xs) (None :: 'a option)
        = replicate (c - n) None"
    using assms by (simp add: replicate_add[symmetric])
  with assms show ?thesis by (simp add: splice_def take_map min_def)
qed

lemma Resize_down_Returns:
  assumes inv: "invariant h v" and n: "n \<le> Size v"
    and ret: "Resize T n (h, v) = Returns u (h', v')"
  shows "v' = v\<lparr>m_size := n\<rparr> \<and> invariant h' v' \<and> elements h' v' = take n (elements h v)"
proof -
  from n have le: "\<not> n > m_size v" by (simp add: Size_def)
  with ret obtain v': "v' = v\<lparr>m_size := n\<rparr>"
    and des: "destroy_n (ptr_add (m_buffer (m_data v)) n) (m_size v - n) h = Returns () h'"
    by (auto simp: Returns_simps GetAddress_def)
  from inv show ?thesis
  proof (cases rule: invariant_cases)
    case empty
    with des n have "h' = h" by (simp add: destroy_n_zero Size_def)
    with v' empty n invariant_empty[of v' h'] show ?thesis by (simp add: Size_def)
  next
    case (block b)
    let ?xs = "elements h v"
    from destroy_n_Returns[OF des[unfolded block(1) ptr_add.simps] block(2)]
    have "h' = h[b := Some (splice (map Some ?xs @ replicate (m_capacity (m_data v) - m_size v) None)
             n (replicate (m_size v - n) None))]" by simp
    also have "\<dots> = h[b := Some (map Some (take n ?xs)
                 @ replicate (m_capacity (m_data v) - length (take n ?xs)) None)]"
      using splice_destroy_tail[of n ?xs "m_capacity (m_data v)"] block(3,5) n
      by (simp add: Size_def)
    finally have "block h' b = Some (map Some (take n ?xs)
                 @ replicate (m_capacity (m_data v) - length (take n ?xs)) None)"
      using block_Some_length[OF block(2)] by simp
    from invariant_block[of v' b h' "take n ?xs" "m_capacity (m_data v)", OF _ this]
      v' block n
    show ?thesis by (simp add: Size_def min_def)
  qed
qed

text \<open>
  Claim C9. \<^verbatim>\<open>Resize(n)\<close> with \<open>n\<close> below the size, when it returns, has destroyed the
  elements from \<open>n\<close> on (the invariant holds for the new size, and the elements are the
  first \<open>n\<close>) and has kept the buffer and its capacity. No operation but \<^verbatim>\<open>Swap\<close> and
  move assignment, which is \<^verbatim>\<open>Swap\<close>, ends in a state of smaller capacity than it
  started in, by return or by exception; copy assignment is among those that do not.
\<close>

theorem capacity_never_decreases:
  "(invariant h v \<and> n < Size v \<and> Resize T n (h, v) = Returns () (h', v') \<longrightarrow>
      Capacity v' = Capacity v \<and> m_data v' = m_data v \<and> Size v' = n \<and>
      elements h' v' = take n (elements h v) \<and> invariant h' v') \<and>
   capacity_not_below v (Resize T k (h, v)) \<and>
   capacity_not_below v (Reserve T k (h, v)) \<and>
   capacity_not_below v (PushBack T val (h, v)) \<and>
   capacity_not_below v (PushBack_move T val (h, v)) \<and>
   capacity_not_below v (PopBack (h, v)) \<and>
   capacity_not_below v (EmplaceBack T args (h, v)) \<and>
   capacity_not_below v (Emplace T pos args (h, v)) \<and>
   capacity_not_below v (Insert T pos val (h, v)) \<and>
   capacity_not_below v (Insert_move T pos val (h, v)) \<and>
   capacity_not_below v (Erase T pos (h, v)) \<and>
   capacity_not_below v (copy_assignment T other (h, v))"
proof -
  have "Capacity v' = Capacity v \<and> m_data v' = m_data v \<and> Size v' = n \<and>
      elements h' v' = take n (elements h v) \<and> invariant h' v'"
    if "invariant h v" "n < Size v" "Resize T n (h, v) = Returns () (h', v')"
    using Resize_down_Returns[OF that(1) _ that(3)] that(2)
    by (auto simp: Capacity_def Size_def)
  then show ?thesis
    using Resize_cnb[of v T k h] Reserve_cnb[of v T k h] PushBack_cnb[of v T val h]
      PushBack_move_cnb[of v T val h] PopBack_cnb[of v h] EmplaceBack_cnb[of v T args h]
      Emplace_cnb[of v T pos args h] Emplace_cnb[of v T pos "Lvalue val" h]
      Emplace_cnb[of v T pos "Rvalue val" h] Erase_cnb[of v T pos h]
      copy_assignment_cnb[of v T other h]
    unfolding Insert_def Insert_move_def by blast
qed

theorem capacity_never_decreases_witness:
  "invariant [Some [Some (1::int), Some 2, Some 3, None]]
      \<lparr>m_data = \<lparr>m_buffer = Ptr 0 0, m_capacity = 4\<rparr>, m_size = 3\<rparr>
   \<and> 1 < Size \<lparr>m_data = \<lparr>m_buffer = Ptr 0 0, m_capacity = 4\<rparr>, m_size = 3\<rparr>
   \<and> Resize int_type 1
        ([Some [Some 1, Some 2, Some 3, None]],
         \<lparr>m_data = \<lparr>m_buffer = Ptr 0 0, m_capacity = 4\<rparr>, m_size = 3\<rparr>)
       = Returns ()
          ([Some [Some 1, None, None, None]],
           \<lparr>m_data = \<lparr>m_buffer = Ptr 0 0, m_capacity = 4\<rparr>, m_size = 1\<rparr>)
   \<and> Capacity \<lparr>m_data = \<lparr>m_buffer = Ptr 0 0, m_capacity = 4\<rparr>, m_size = 1\<rparr>
       = Capacity \<lparr>m_data = \<lparr>m_buffer = Ptr 0 0, m_capacity = 4\<rparr>, m_size = 3\<rparr>
   \<and> elements [Some [Some (1::int), None, None, None]]
         \<lparr>m_data = \<lparr>m_buffer = Ptr 0 0, m_capacity = 4\<rparr>, m_size = 1\<rparr>
       = take 1 (elements [Some [Some 1, Some 2, Some 3, None]]
                   \<lparr>m_data = \<lparr>m_buffer = Ptr 0 0, m_capacity = 4\<rparr>, m_size = 3\<rparr>)
   \<and> invariant [Some [Some (1::int), None, None, None]]
         \<lparr>m_data = \<lparr>m_buffer = Ptr 0 0, m_capacity = 4\<rparr>, m_size = 1\<rparr>"
proof -
  let ?h = "[Some [Some 1, Some 2, Some 3, None]] :: int heap"
  let ?v = "\<lparr>m_data = \<lparr>m_buffer = Ptr 0 0, m_capacity = 4\<rparr>, m_size = 3\<rparr>"
  let ?h' = "[Some [Some 1, None, None, None]] :: int heap"
  let ?v' = "\<lparr>m_data = \<lparr>m_buffer = Ptr 0 0, m_capacity = 4\<rparr>, m_size = 1\<rparr>"
  have inv: "invariant ?h ?v" by code_simp
  have lt: "1 < Size ?v" by code_simp
  have run: "Resize int_type 1 (?h, ?v) = Returns () (?h', ?v')" by code_simp
  from capacity_never_decreases[where h = ?h and v = ?v and n = 1 and T = int_type
      and h' = ?h' and v' = ?v'] inv lt run
  have "Capacity ?v' = Capacity ?v \<and> elements ?h' ?v' = take 1 (elements ?h ?v) \<and> invariant ?h' ?v'"
    by blast
  with inv lt run show ?thesis by blast
qed

subsection \<open>Shifting inside one block\<close>

lemma value_semantics_copy_construct:
  "value_semantics T \<Longrightarrow> copy_construct T x = Some y \<Longrightarrow> y = x"
  unfolding value_semantics_def by blast

lemma value_semantics_move_construct:
  "value_semantics T \<Longrightarrow> move_construct T x = Some (y, z) \<Longrightarrow> y = x"
  unfolding value_semantics_def by blast

lemma value_semantics_copy_assign:
  "value_semantics T \<Longrightarrow> copy_assign T d s = Some r \<Longrightarrow> r = s"
  unfolding value_semantics_def by blast




lemma cells_eqI:
  assumes "length cs = c" and "length xs \<le> c"
    and "\<And>i. i < length xs \<Longrightarrow> cs ! i = Some (xs ! i)"
    and "\<And>i. length xs \<le> i \<Longrightarrow> i < c \<Longrightarrow> cs ! i = None"
  shows "cs = map Some xs @ replicate (c - length xs) None"
  using assms by (intro nth_equalityI) (auto simp: nth_append)




lemma ptr_add_0 [simp]: "ptr_add p 0 = p"
  by (cases p) simp_all



subsection \<open>Assignment of one range to another\<close>

lemma assign_copy_Returns:
  "assign_copy T (Ptr bd i) (Ptr bs j) h = Returns u h' \<longleftrightarrow>
     (\<exists>cs cd y z z'. block h bs = Some cs \<and> j < length cs \<and> cs ! j = Some y \<and>
        block h bd = Some cd \<and> i < length cd \<and> cd ! i = Some z \<and>
        copy_assign T z y = Some z' \<and> h' = h[bd := Some (cd[i := Some z'])])"
  by (auto simp: assign_copy_def Returns_simps read_obj_Returns write_obj_Returns)

lemma copy_n_Returns:
  assumes "copy_n T (Ptr bs i) n (Ptr bd j) h = Returns u h'"
    and "block h bs = Some cs" and "block h bd = Some cd" and "bs \<noteq> bd"
  shows "\<exists>ys. length ys = n \<and> h' = h[bd := Some (splice cd j (map Some ys))] \<and>
           (\<forall>k<n. i + k < length cs \<and> j + k < length cd \<and>
              (\<exists>x z. cs ! (i + k) = Some x \<and> cd ! (j + k) = Some z \<and>
                     copy_assign T z x = Some (ys ! k)))"
proof -
  let ?I = "\<lambda>m t. \<exists>ys. length ys = m \<and> t = h[bd := Some (splice cd j (map Some ys))] \<and>
           (\<forall>k<m. i + k < length cs \<and> j + k < length cd \<and>
              (\<exists>x z. cs ! (i + k) = Some x \<and> cd ! (j + k) = Some z \<and>
                     copy_assign T z x = Some (ys ! k)))"
  have "?I (0 + n) h'"
  proof (rule for_each_index_Returns[where I = ?I, OF assms(1)[unfolded copy_n_def]])
    show "?I 0 h" using assms(3) by (simp add: block_update_same)
  next
    fix m t t'
    assume I: "?I m t"
      and step: "assign_copy T (ptr_add (Ptr bd j) m) (ptr_add (Ptr bs i) m) t = Returns () t'"
    from I obtain ys where ys: "length ys = m" "t = h[bd := Some (splice cd j (map Some ys))]"
      "\<forall>k<m. i + k < length cs \<and> j + k < length cd \<and>
              (\<exists>x z. cs ! (i + k) = Some x \<and> cd ! (j + k) = Some z \<and>
                     copy_assign T z x = Some (ys ! k))" by blast
    have bs: "block t bs = Some cs" and bd: "block t bd = Some (splice cd j (map Some ys))"
      using ys(2) assms(2-4) by (auto dest: block_Some_length)
    from step bs bd obtain x z y where x: "i + m < length cs" "cs ! (i + m) = Some x"
      and lt: "j + m < length (splice cd j (map Some ys))"
      and z: "splice cd j (map Some ys) ! (j + m) = Some z" "copy_assign T z x = Some y"
      and t': "t' = t[bd := Some ((splice cd j (map Some ys))[j + m := Some y])]"
      by (auto simp: assign_copy_Returns)
    from lt ys(1) have lt': "j + m < length cd" by (simp add: splice_def split: if_splits)
    from z(1) lt' ys(1) have z': "cd ! (j + m) = Some z" by (simp add: nth_splice)
    have "(splice cd j (map Some ys))[j + m := Some y] = splice cd j (map Some (ys @ [y]))"
      using splice_snoc[of j "map Some ys" cd "Some y"] lt' ys(1) by simp
    with t' ys x z z' lt' show "?I (Suc m) t'"
      by (intro exI[of _ "ys @ [y]"]) (auto simp: less_Suc_eq nth_append)
  qed
  then show ?thesis by simp
qed

lemma for_each_index_unchanged:
  assumes "\<And>j. k \<le> j \<Longrightarrow> j < k + n \<Longrightarrow> body j s = Returns () s"
  shows "for_each_index k n body s = Returns () s"
  using assms by (induction n arbitrary: k) simp_all

lemma assign_copy_self:
  assumes "block h b = Some cs" and "i < length cs" and "cs ! i = Some x"
    and "copy_assign T x x = Some x"
  shows "assign_copy T (Ptr b i) (Ptr b i) h = Returns () h"
proof -
  have "cs[i := Some x] = cs" using assms(2,3) by (metis list_update_id)
  then have "h[b := Some (cs[i := Some x])] = h" using assms(1) by (simp add: block_update_same)
  with assms show ?thesis by (auto simp: assign_copy_Returns)
qed

lemma copy_n_self:
  assumes "block h b = Some cs"
    and "\<forall>k<n. i + k < length cs \<and> (\<exists>x. cs ! (i + k) = Some x \<and> copy_assign T x x = Some x)"
  shows "copy_n T (Ptr b i) n (Ptr b i) h = Returns () h"
  unfolding copy_n_def
proof (rule for_each_index_unchanged)
  fix j assume "0 \<le> j" "j < 0 + n"
  with assms(2) obtain x where "i + j < length cs" "cs ! (i + j) = Some x"
    "copy_assign T x x = Some x" by auto
  with assign_copy_self[OF assms(1) this]
  show "assign_copy T (ptr_add (Ptr b i) j) (ptr_add (Ptr b i) j) h = Returns () h" by simp
qed

lemma copy_n_zero: "copy_n T p 0 q h = Returns () h"
  by (simp add: copy_n_def)

text \<open>
  Claim C10. Copy assignment of a vector to itself, \<^verbatim>\<open>v = v\<close>, on a vector that satisfies
  the invariant and whose elements are unchanged by assignment to themselves, returns
  with the heap and the object exactly as they were: the size, the capacity and every
  element. There is no test for self-assignment in the code; each element is assigned
  to itself.
\<close>

theorem self_assignment_changes_nothing:
  assumes "invariant h v" and "\<forall>x \<in> set (elements h v). copy_assign T x x = Some x"
  shows "copy_assignment T This (h, v) = Returns () (h, v)"
proof -
  have le: "\<not> m_size v > RawMemory_Capacity (m_data v)"
    using assms(1) by (simp add: invariant_def RawMemory_Capacity_def)
  have "copy_n T (m_buffer (m_data v)) (m_size v) (m_buffer (m_data v)) h = Returns () h"
    using assms(1)
  proof (cases rule: invariant_cases)
    case empty
    then show ?thesis by (simp add: copy_n_zero)
  next
    case (block b)
    have "\<forall>k<m_size v. 0 + k < length (map Some (elements h v)
             @ replicate (m_capacity (m_data v) - m_size v) None) \<and>
           (\<exists>x. (map Some (elements h v) @ replicate (m_capacity (m_data v) - m_size v) None)
                   ! (0 + k) = Some x \<and> copy_assign T x x = Some x)"
      using assms(2) block(3,5) by (auto simp: nth_append)
    from copy_n_self[OF block(2) this] block(1) show ?thesis by simp
  qed
  with le show ?thesis by (simp add: GetAddress_def Size_def)
qed

theorem self_assignment_changes_nothing_witness:
  "invariant [Some [Some (10::int), Some 20, Some 30, None]]
      \<lparr>m_data = \<lparr>m_buffer = Ptr 0 0, m_capacity = 4\<rparr>, m_size = 3\<rparr>
   \<and> list_all (\<lambda>x. copy_assign int_type x x = Some x)
         (elements [Some [Some (10::int), Some 20, Some 30, None]]
            \<lparr>m_data = \<lparr>m_buffer = Ptr 0 0, m_capacity = 4\<rparr>, m_size = 3\<rparr>)
   \<and> copy_assignment int_type This
        ([Some [Some 10, Some 20, Some 30, None]],
         \<lparr>m_data = \<lparr>m_buffer = Ptr 0 0, m_capacity = 4\<rparr>, m_size = 3\<rparr>)
       = Returns ()
        ([Some [Some 10, Some 20, Some 30, None]],
         \<lparr>m_data = \<lparr>m_buffer = Ptr 0 0, m_capacity = 4\<rparr>, m_size = 3\<rparr>)"
proof -
  let ?h = "[Some [Some 10, Some 20, Some 30, None]] :: int heap"
  let ?v = "\<lparr>m_data = \<lparr>m_buffer = Ptr 0 0, m_capacity = 4\<rparr>, m_size = 3\<rparr>"
  have inv: "invariant ?h ?v" by code_simp
  have self: "\<forall>x \<in> set (elements ?h ?v). copy_assign int_type x x = Some x"
    by (simp add: int_type_def)
  from self have self': "list_all (\<lambda>x. copy_assign int_type x x = Some x) (elements ?h ?v)"
    by (simp only: list_all_iff)
  from self_assignment_changes_nothing[OF inv self] inv self' show ?thesis by blast
qed

lemma uninitialized_copy_n_zero: "uninitialized_copy_n T p 0 q h = Returns () h"
  by (simp add: uninitialized_copy_n_def)

lemma copy_assignment_Returns:
  assumes invv: "invariant h v" and invw: "invariant h w" and sep: "separate v w"
    and fits: "Size w \<le> Capacity v" and vs: "value_semantics T"
    and ret: "copy_assignment T (That w) (h, v) = Returns u (h', v')"
  shows "v' = v\<lparr>m_size := m_size w\<rparr> \<and> invariant h' v' \<and> elements h' v' = elements h w \<and>
         length h' = length h \<and> invariant h' w \<and> elements h' w = elements h w"
proof -
  let ?nv = "m_size v" and ?nw = "m_size w" and ?c = "m_capacity (m_data v)"
  let ?pv = "m_buffer (m_data v)" and ?pw = "m_buffer (m_data w)"
  from fits have le: "\<not> ?nw > RawMemory_Capacity (m_data v)" and nwc: "?nw \<le> ?c"
    by (simp_all add: Size_def Capacity_def RawMemory_Capacity_def)
  from ret le obtain h1 where v': "v' = v\<lparr>m_size := ?nw\<rparr>"
    and cp: "copy_n T ?pw (min ?nv ?nw) ?pv h = Returns () h1"
    and rest: "(if ?nv > ?nw then destroy_n (ptr_add ?pv ?nw) (?nv - ?nw) h1
                else if ?nv < ?nw then
                  uninitialized_copy_n T (ptr_add ?pw ?nv) (?nw - ?nv) (ptr_add ?pv ?nv) h1
                else Returns () h1) = Returns () h'"
    by (auto simp: Returns_simps GetAddress_def Size_def RawMemory_plus_def split: if_splits)
  from invv show ?thesis
  proof (cases rule: invariant_cases)
    case empty
    with nwc have nw0: "?nw = 0" by simp
    with cp rest empty have "h' = h" by (simp add: copy_n_zero)
    moreover have "elements h w = []" using nw0 by (simp add: elements_def)
    moreover have "v' = v" using v' nw0 empty by simp
    ultimately show ?thesis using invv invw empty nw0 by simp
  next
    case (block b)
    let ?xs = "elements h v"
    let ?cs = "map Some ?xs @ replicate (?c - ?nv) None"
    have lcs: "length ?cs = ?c" using block(3,5) by simp
    have bl: "b < length h" using block(2) by (rule block_Some_length)
    from invw have "block h' b = Some (map Some (elements h w) @ replicate (?c - ?nw) None) \<and>
        length h' = length h \<and> (\<forall>b'. b' \<noteq> b \<longrightarrow> block h' b' = block h b')"
    proof (cases rule: invariant_cases)
      case empty
      then have nw0: "?nw = 0" and ew: "elements h w = []" by simp_all
      with cp have h1: "h1 = h" by (simp add: copy_n_zero)
      show ?thesis
      proof (cases "?nv > 0")
        case False
        with rest nw0 h1 block(2,5) ew show ?thesis by simp
      next
        case True
        with rest nw0 h1 block(1) have "destroy_n (Ptr b 0) ?nv h = Returns () h'" by simp
        from destroy_n_Returns[OF this block(2)]
        have "h' = h[b := Some (splice ?cs 0 (replicate ?nv None))]" by simp
        moreover have "splice ?cs 0 (replicate ?nv None) = replicate ?c None"
          using block(3,5) by (simp add: splice_def replicate_add[symmetric])
        ultimately show ?thesis using ew nw0 bl by simp
      qed
    next
      case wb: (block bw)
      let ?ws = "elements h w" and ?cw = "m_capacity (m_data w)"
      let ?cws = "map Some ?ws @ replicate (?cw - ?nw) None"
      from sep block(1) wb(1) have ne: "bw \<noteq> b" by (auto simp: separate_def)
      let ?m = "min ?nv ?nw"
      from copy_n_Returns[OF cp[unfolded block(1) wb(1)] wb(2) block(2) ne]
      obtain ys where ys0: "length ys = ?m \<and> h1 = h[b := Some (splice ?cs 0 (map Some ys))] \<and>
           (\<forall>k<?m. 0 + k < length ?cws \<and> 0 + k < length ?cs \<and>
              (\<exists>x z. ?cws ! (0 + k) = Some x \<and> ?cs ! (0 + k) = Some z \<and>
                     copy_assign T z x = Some (ys ! k)))" by blast
      then have ys: "length ys = ?m" "h1 = h[b := Some (splice ?cs 0 (map Some ys))]"
        "\<forall>k<?m. \<exists>x z. ?cws ! k = Some x \<and> copy_assign T z x = Some (ys ! k)"
        by (simp, simp, simp) blast
      have ysk: "ys ! k = ?ws ! k" if "k < ?m" for k
      proof -
        from ys(3) that obtain x z where "?cws ! k = Some x" "copy_assign T z x = Some (ys ! k)"
          by blast
        moreover from that wb(5) have "?cws ! k = Some (?ws ! k)" by (simp add: nth_append)
        ultimately show ?thesis using value_semantics_copy_assign[OF vs] by auto
      qed
      let ?c1 = "splice ?cs 0 (map Some ys)"
      have lc1: "length ?c1 = ?c" using ys(1) lcs block(3) by simp
      have c1: "?c1 ! i = (if i < ?m then Some (?ws ! i) else ?cs ! i)" if "i < ?c" for i
        using that ys(1) lcs block(3) ysk by (simp add: nth_splice)
      have b1: "block h1 b = Some ?c1" and bw1: "block h1 bw = Some ?cws"
        using ys(2) bl ne wb(2) by simp_all
      have "\<exists>c2. h' = h1[b := Some c2] \<and> length c2 = ?c \<and>
              (\<forall>i<?c. c2 ! i = (if i < ?nw then Some (?ws ! i) else None))"
      proof (cases "?nv > ?nw")
        case True
        with rest block(1) have "destroy_n (Ptr b ?nw) (?nv - ?nw) h1 = Returns () h'" by simp
        from destroy_n_Returns[OF this b1]
        have h': "h' = h1[b := Some (splice ?c1 ?nw (replicate (?nv - ?nw) None))]" by simp
        have "\<forall>i<?c. splice ?c1 ?nw (replicate (?nv - ?nw) None) ! i
                 = (if i < ?nw then Some (?ws ! i) else None)"
          using True lc1 c1 block(3,5) by (auto simp: nth_splice nth_append min_def)
        with h' lc1 True block(3) show ?thesis by (intro exI[of _ "splice ?c1 ?nw (replicate (?nv - ?nw) None)"]) simp
      next
        case False
        show ?thesis
        proof (cases "?nv < ?nw")
          case False
          with \<open>\<not> ?nv > ?nw\<close> have eq: "?nv = ?nw" by simp
          with rest have "h' = h1" by simp
          moreover have "\<forall>i<?c. ?c1 ! i = (if i < ?nw then Some (?ws ! i) else None)"
            using c1 eq block(3,5) by (auto simp: nth_append)
          ultimately show ?thesis using lc1 b1 by (intro exI[of _ ?c1]) (simp add: block_update_same)
        next
          case True
          with rest block(1) wb(1)
          have "uninitialized_copy_n T (Ptr bw ?nv) (?nw - ?nv) (Ptr b ?nv) h1 = Returns () h'"
            by simp
          from uninitialized_copy_n_Returns[OF this bw1 b1 ne]
          obtain zs where zs0: "length zs = ?nw - ?nv \<and>
               h' = h1[b := Some (splice ?c1 ?nv (map Some zs))] \<and>
               (\<forall>k<?nw - ?nv. ?nv + k < length ?cws \<and> ?nv + k < length ?c1 \<and>
                  (\<exists>x. ?cws ! (?nv + k) = Some x \<and> copy_construct T x = Some (zs ! k)))"
            by blast
          then have zs: "length zs = ?nw - ?nv" "h' = h1[b := Some (splice ?c1 ?nv (map Some zs))]"
            "\<forall>k<?nw - ?nv. \<exists>x. ?cws ! (?nv + k) = Some x \<and> copy_construct T x = Some (zs ! k)"
            by blast+
          have zsk: "zs ! k = ?ws ! (?nv + k)" if "k < ?nw - ?nv" for k
          proof -
            from zs(3) that obtain x where "?cws ! (?nv + k) = Some x"
              "copy_construct T x = Some (zs ! k)" by blast
            moreover from that have "?nv + k < ?nw" by arith
            with wb(5) have "?cws ! (?nv + k) = Some (?ws ! (?nv + k))"
              by (simp add: nth_append)
            ultimately show ?thesis using value_semantics_copy_construct[OF vs] by auto
          qed
          have "\<forall>i<?c. splice ?c1 ?nv (map Some zs) ! i
                 = (if i < ?nw then Some (?ws ! i) else None)"
          proof (intro allI impI)
            fix i assume i: "i < ?c"
            show "splice ?c1 ?nv (map Some zs) ! i = (if i < ?nw then Some (?ws ! i) else None)"
              using True lc1 c1[OF i] i zs(1) zsk[of "i - ?nv"] nwc block(3,5)
              by (auto simp: nth_splice nth_append min_def)
          qed
          with zs(2) lc1 True zs(1) nwc show ?thesis
            by (intro exI[of _ "splice ?c1 ?nv (map Some zs)"]) simp
        qed
      qed
      then obtain c2 where c2: "h' = h1[b := Some c2]" "length c2 = ?c"
        "\<forall>i<?c. c2 ! i = (if i < ?nw then Some (?ws ! i) else None)" by blast
      have "c2 = map Some ?ws @ replicate (?c - length ?ws) None"
        using c2(2,3) nwc wb(5) by (intro cells_eqI) auto
      with c2(1) ys(2) bl wb(5) show ?thesis by simp
    qed
    then have blk': "block h' b = Some (map Some (elements h w) @ replicate (?c - ?nw) None)"
      and len: "length h' = length h"
      and frame: "\<And>b'. b' \<noteq> b \<Longrightarrow> block h' b' = block h b'" by blast+
    have lw: "length (elements h w) = ?nw"
      using invw by (cases rule: invariant_cases) simp_all
    from invariant_block[of v' b h' "elements h w" ?c] blk' v' block(1,4) lw nwc
    have i1: "invariant h' v'" "elements h' v' = elements h w" by simp_all
    have fr: "\<And>b'. m_buffer (m_data w) = Ptr b' 0 \<Longrightarrow> block h' b' = block h b'"
      using frame sep block(1) by (auto simp: separate_def)
    from invw have i2: "invariant h' w \<and> elements h' w = elements h w"
    proof (cases rule: invariant_cases)
      case empty
      with invariant_empty[of w h'] show ?thesis by simp
    next
      case wb: (block bw)
      from fr[OF wb(1)] wb(2)
      have "block h' bw = Some (map Some (elements h w)
              @ replicate (m_capacity (m_data w) - length (elements h w)) None)"
        using wb(5) by simp
      from invariant_block[of w bw h' "elements h w" "m_capacity (m_data w)", OF wb(1) this]
        wb(3,4,5) show ?thesis by simp
    qed
    from i1 i2 v' len show ?thesis by simp
  qed
qed

text \<open>
  Claim C5. Copy assignment from another vector whose size does not exceed the capacity
  of the target, when it returns, has not reallocated: the target keeps its buffer and
  its capacity, and no block was allocated. The size of the target is the size of the
  source, its elements are the elements of the source (for an element type with value
  semantics), the slots from the new size on are raw (the invariant holds: what the
  target had in excess is destroyed), and the source is as it was.
\<close>

theorem copy_assignment_without_reallocation:
  assumes "invariant h v" and "invariant h w" and "separate v w"
    and "Size w \<le> Capacity v" and "value_semantics T"
    and "copy_assignment T (That w) (h, v) = Returns () (h', v')"
  shows "Capacity v' = Capacity v \<and> m_data v' = m_data v \<and> length h' = length h \<and>
         Size v' = Size w \<and> elements h' v' = elements h w \<and> invariant h' v' \<and>
         elements h' w = elements h w"
  using copy_assignment_Returns[OF assms] by (auto simp: Capacity_def Size_def)

theorem copy_assignment_without_reallocation_witness:
  "invariant [Some [Some (1::int), Some 2, Some 3, Some 4, Some 5, None, None, None, None, None],
              Some [Some 7, Some 8, Some 9]]
      \<lparr>m_data = \<lparr>m_buffer = Ptr 0 0, m_capacity = 10\<rparr>, m_size = 5\<rparr>
   \<and> invariant [Some [Some (1::int), Some 2, Some 3, Some 4, Some 5, None, None, None, None, None],
              Some [Some 7, Some 8, Some 9]]
      \<lparr>m_data = \<lparr>m_buffer = Ptr 1 0, m_capacity = 3\<rparr>, m_size = 3\<rparr>
   \<and> separate \<lparr>m_data = \<lparr>m_buffer = Ptr 0 0, m_capacity = 10\<rparr>, m_size = 5\<rparr>
        \<lparr>m_data = \<lparr>m_buffer = Ptr 1 0, m_capacity = 3\<rparr>, m_size = 3\<rparr>
   \<and> Size \<lparr>m_data = \<lparr>m_buffer = Ptr 1 0, m_capacity = 3\<rparr>, m_size = 3\<rparr>
       \<le> Capacity \<lparr>m_data = \<lparr>m_buffer = Ptr 0 0, m_capacity = 10\<rparr>, m_size = 5\<rparr>
   \<and> value_semantics int_type
   \<and> copy_assignment int_type
        (That \<lparr>m_data = \<lparr>m_buffer = Ptr 1 0, m_capacity = 3\<rparr>, m_size = 3\<rparr>)
        ([Some [Some 1, Some 2, Some 3, Some 4, Some 5, None, None, None, None, None],
          Some [Some 7, Some 8, Some 9]],
         \<lparr>m_data = \<lparr>m_buffer = Ptr 0 0, m_capacity = 10\<rparr>, m_size = 5\<rparr>)
       = Returns ()
        ([Some [Some 7, Some 8, Some 9, None, None, None, None, None, None, None],
          Some [Some 7, Some 8, Some 9]],
         \<lparr>m_data = \<lparr>m_buffer = Ptr 0 0, m_capacity = 10\<rparr>, m_size = 3\<rparr>)
   \<and> Capacity \<lparr>m_data = \<lparr>m_buffer = Ptr 0 0, m_capacity = 10\<rparr>, m_size = 3\<rparr>
       = Capacity \<lparr>m_data = \<lparr>m_buffer = Ptr 0 0, m_capacity = 10\<rparr>, m_size = 5\<rparr>
   \<and> Size \<lparr>m_data = \<lparr>m_buffer = Ptr 0 0, m_capacity = 10\<rparr>, m_size = 3\<rparr>
       = Size \<lparr>m_data = \<lparr>m_buffer = Ptr 1 0, m_capacity = 3\<rparr>, m_size = 3\<rparr>
   \<and> elements [Some [Some (7::int), Some 8, Some 9, None, None, None, None, None, None, None],
                Some [Some 7, Some 8, Some 9]]
         \<lparr>m_data = \<lparr>m_buffer = Ptr 0 0, m_capacity = 10\<rparr>, m_size = 3\<rparr>
       = elements [Some [Some 1, Some 2, Some 3, Some 4, Some 5, None, None, None, None, None],
                   Some [Some 7, Some 8, Some 9]]
           \<lparr>m_data = \<lparr>m_buffer = Ptr 1 0, m_capacity = 3\<rparr>, m_size = 3\<rparr>
   \<and> invariant [Some [Some (7::int), Some 8, Some 9, None, None, None, None, None, None, None],
                 Some [Some 7, Some 8, Some 9]]
         \<lparr>m_data = \<lparr>m_buffer = Ptr 0 0, m_capacity = 10\<rparr>, m_size = 3\<rparr>"
proof -
  let ?h = "[Some [Some 1, Some 2, Some 3, Some 4, Some 5, None, None, None, None, None],
             Some [Some 7, Some 8, Some 9]] :: int heap"
  let ?v = "\<lparr>m_data = \<lparr>m_buffer = Ptr 0 0, m_capacity = 10\<rparr>, m_size = 5\<rparr>"
  let ?w = "\<lparr>m_data = \<lparr>m_buffer = Ptr 1 0, m_capacity = 3\<rparr>, m_size = 3\<rparr>"
  let ?h' = "[Some [Some 7, Some 8, Some 9, None, None, None, None, None, None, None],
              Some [Some 7, Some 8, Some 9]] :: int heap"
  let ?v' = "\<lparr>m_data = \<lparr>m_buffer = Ptr 0 0, m_capacity = 10\<rparr>, m_size = 3\<rparr>"
  have iv: "invariant ?h ?v" by code_simp
  have iw: "invariant ?h ?w" by code_simp
  have sep: "separate ?v ?w" by code_simp
  have fits: "Size ?w \<le> Capacity ?v" by code_simp
  have run: "copy_assignment int_type (That ?w) (?h, ?v) = Returns () (?h', ?v')" by code_simp
  from copy_assignment_without_reallocation[OF iv iw sep fits value_semantics_int_type run]
    iv iw sep fits value_semantics_int_type run
  show ?thesis by blast
qed

text \<open>
  Claim C4, where the code departs from it. \<^verbatim>\<open>v.Insert(v.begin(), v[2])\<close> on the vector
  10, 20, 30 of capacity 4: the value to insert is the element 30 of the vector itself,
  passed by reference. Below capacity \<^verbatim>\<open>Emplace\<close> shifts the elements first and reads
  the reference afterwards, when the slot holds 20: the result is 20, 10, 20, 30 and not
  30, 10, 20, 30. With capacity 3 the same call reallocates, constructs the new element
  first, and gives 30, 10, 20, 30.
\<close>

theorem Insert_own_element_below_capacity:
  "Insert int_type (position \<lparr>m_data = \<lparr>m_buffer = Ptr 0 0, m_capacity = 4\<rparr>, m_size = 3\<rparr> 0)
     (Ptr 0 2)
     ([Some [Some 10, Some 20, Some 30, None]],
      \<lparr>m_data = \<lparr>m_buffer = Ptr 0 0, m_capacity = 4\<rparr>, m_size = 3\<rparr>)
   = Returns (Ptr 0 0)
      ([Some [Some 20, Some 10, Some 20, Some 30], None],
       \<lparr>m_data = \<lparr>m_buffer = Ptr 0 0, m_capacity = 4\<rparr>, m_size = 4\<rparr>)
   \<and> elements [Some [Some 20, Some 10, Some 20, Some 30], None]
         \<lparr>m_data = \<lparr>m_buffer = Ptr 0 0, m_capacity = 4\<rparr>, m_size = 4\<rparr>
       = [20, 10, 20, 30 :: int]
   \<and> Insert int_type (position \<lparr>m_data = \<lparr>m_buffer = Ptr 0 0, m_capacity = 3\<rparr>, m_size = 3\<rparr> 0)
       (Ptr 0 2)
       ([Some [Some 10, Some 20, Some 30]],
        \<lparr>m_data = \<lparr>m_buffer = Ptr 0 0, m_capacity = 3\<rparr>, m_size = 3\<rparr>)
     = Returns (Ptr 1 0)
        ([None, Some [Some 30, Some 10, Some 20, Some 30, None, None]],
         \<lparr>m_data = \<lparr>m_buffer = Ptr 1 0, m_capacity = 6\<rparr>, m_size = 4\<rparr>)"
  by code_simp

text \<open>
  Claim C8, where the code departs from it. \<^verbatim>\<open>v.Emplace(v.begin(), -1)\<close> on the vector
  10, 20, 30 of capacity 4, for an element type whose constructor throws on -1. Below
  capacity \<^verbatim>\<open>Emplace\<close> constructs a new last element in slot 3 and shifts, and only then
  constructs the value to insert. The exception leaves with \<^verbatim>\<open>size_\<close> still 3 and slot 3
  holding a constructed element: the invariant does not hold in the state the caller
  sees. With capacity 3 the same call reallocates and leaves the vector as it was.
\<close>

theorem Emplace_exception_below_capacity:
  "invariant [Some [Some (10::int), Some 20, Some 30, None]]
      \<lparr>m_data = \<lparr>m_buffer = Ptr 0 0, m_capacity = 4\<rparr>, m_size = 3\<rparr>
   \<and> Emplace throwing_type
       (position \<lparr>m_data = \<lparr>m_buffer = Ptr 0 0, m_capacity = 4\<rparr>, m_size = 3\<rparr> 0) (Args (- 1))
       ([Some [Some 10, Some 20, Some 30, None]],
        \<lparr>m_data = \<lparr>m_buffer = Ptr 0 0, m_capacity = 4\<rparr>, m_size = 3\<rparr>)
     = Throws element_exception
        ([Some [Some 10, Some 10, Some 20, Some 30], None],
         \<lparr>m_data = \<lparr>m_buffer = Ptr 0 0, m_capacity = 4\<rparr>, m_size = 3\<rparr>)
   \<and> \<not> invariant [Some [Some (10::int), Some 10, Some 20, Some 30], None]
        \<lparr>m_data = \<lparr>m_buffer = Ptr 0 0, m_capacity = 4\<rparr>, m_size = 3\<rparr>
   \<and> Emplace throwing_type
       (position \<lparr>m_data = \<lparr>m_buffer = Ptr 0 0, m_capacity = 3\<rparr>, m_size = 3\<rparr> 0) (Args (- 1))
       ([Some [Some 10, Some 20, Some 30]],
        \<lparr>m_data = \<lparr>m_buffer = Ptr 0 0, m_capacity = 3\<rparr>, m_size = 3\<rparr>)
     = Throws element_exception
        ([Some [Some 10, Some 20, Some 30], None],
         \<lparr>m_data = \<lparr>m_buffer = Ptr 0 0, m_capacity = 3\<rparr>, m_size = 3\<rparr>)"
  by code_simp

subsection \<open>Every way a loop can end\<close>

lemma for_each_index_any:
  assumes "for_each_index k n body s = Returns u s' \<or> for_each_index k n body s = Throws e s'"
    and "P s"
    and "\<And>j t t' u e. P t \<Longrightarrow> body j t = Returns u t' \<or> body j t = Throws e t' \<Longrightarrow> P t'"
  shows "P s'"
  using assms(1,2)
proof (induction n arbitrary: k s)
  case 0
  then show ?case by simp
next
  case (Suc n)
  show ?case
  proof (cases "body k s")
    case (Returns r t)
    with Suc.prems(2) assms(3)[of s k r t] have "P t" by simp
    from Suc.IH[OF _ this, of "Suc k"] Suc.prems(1) Returns show ?thesis by simp
  next
    case (Throws e' t)
    with Suc.prems(1) have "s' = t" by simp
    with Suc.prems(2) assms(3)[of s k _ t e'] Throws show ?thesis by simp
  next
    case (Fault x)
    with Suc.prems(1) show ?thesis by simp
  qed
qed

lemma unwinding_Throws:
  "unwinding m d = Throws e s \<longleftrightarrow> (\<exists>s1. m = Throws e s1 \<and> d s1 = Returns () s)"
  by (cases m) (auto split: outcome.splits)

lemma and_then_Throws:
  "and_then m f = Throws e s \<longleftrightarrow>
     m = Throws e s \<or> (\<exists>r s1. m = Returns r s1 \<and> f r s1 = Throws e s)"
  by (cases m) auto

lemma copy_object_Throws: "copy_object T p h = Throws e h' \<Longrightarrow> h' = h"
  by (auto simp: copy_object_def read_obj_def and_then_Throws split: option.splits)

lemma construct_at_not_Throws: "construct_at p x h \<noteq> Throws e h'"
  by (auto simp: construct_at_def split: option.splits)

lemma uninitialized_copy_n_source:
  assumes "uninitialized_copy_n T (Ptr bs i) n (Ptr bd j) h = Returns u h' \<or>
           uninitialized_copy_n T (Ptr bs i) n (Ptr bd j) h = Throws e h'"
    and "block h bs = Some cs" and "block h bd = Some cd" and "bs \<noteq> bd"
  shows "block h' bs = Some cs"
proof -
  let ?P = "\<lambda>t. block t bs = Some cs \<and> (\<exists>cd'. block t bd = Some cd')"
  have "?P h'"
  proof (rule for_each_index_any[where P = ?P, OF assms(1)[unfolded uninitialized_copy_n_def]])
    show "?P h" using assms(2,3) by simp
  next
    fix m t t' u' e'
    assume P: "?P t"
    then obtain cd' where bs: "block t bs = Some cs" and bd: "block t bd = Some cd'" by blast
    assume "unwinding (and_then (copy_object T (ptr_add (Ptr bs i) m) t)
              (construct_at (ptr_add (Ptr bd j) m))) (destroy_n (Ptr bd j) m) = Returns u' t' \<or>
            unwinding (and_then (copy_object T (ptr_add (Ptr bs i) m) t)
              (construct_at (ptr_add (Ptr bd j) m))) (destroy_n (Ptr bd j) m) = Throws e' t'"
    then show "?P t'"
    proof
      assume "unwinding (and_then (copy_object T (ptr_add (Ptr bs i) m) t)
              (construct_at (ptr_add (Ptr bd j) m))) (destroy_n (Ptr bd j) m) = Returns u' t'"
      with bs bd assms(4) show ?thesis
        by (auto simp: Returns_simps copy_object_Returns construct_at_Returns
            dest: block_Some_length)
    next
      assume "unwinding (and_then (copy_object T (ptr_add (Ptr bs i) m) t)
              (construct_at (ptr_add (Ptr bd j) m))) (destroy_n (Ptr bd j) m) = Throws e' t'"
      then obtain s1 where thr: "and_then (copy_object T (ptr_add (Ptr bs i) m) t)
              (construct_at (ptr_add (Ptr bd j) m)) = Throws e' s1"
        and des: "destroy_n (Ptr bd j) m s1 = Returns () t'"
        unfolding unwinding_Throws by blast
      from thr have "s1 = t"
        by (auto simp: and_then_Throws construct_at_not_Throws dest: copy_object_Throws)
      with des destroy_n_Returns[of bd j m t "()" t' cd'] bd
      have "t' = t[bd := Some (splice cd' j (replicate m None))]" by simp
      with bs bd assms(4) show ?thesis by (auto dest: block_Some_length)
    qed
  qed
  then show ?thesis by simp
qed

subsection \<open>Constructing the new element\<close>

lemma new_object_Returns_cases:
  assumes "new_object T args h = Returns x h'"
  shows "h' = h \<or> (\<exists>q i cq y y'. block h q = Some cq \<and> i < length cq \<and> cq ! i = Some y \<and>
                       h' = h[q := Some (cq[i := Some y'])])"
proof (cases args)
  case (Args g)
  with assms show ?thesis by (auto split: option.splits)
next
  case (Lvalue p)
  show ?thesis
  proof (cases p)
    case Null
    with assms Lvalue show ?thesis by (simp add: copy_object_def read_obj_def)
  next
    case (Ptr b i)
    with assms Lvalue show ?thesis by (auto simp: copy_object_Returns)
  qed
next
  case (Rvalue p)
  show ?thesis
  proof (cases p)
    case Null
    with assms Rvalue show ?thesis by (simp add: move_object_def read_obj_def)
  next
    case (Ptr b i)
    with assms Rvalue show ?thesis by (auto simp: move_object_Returns)
  qed
qed

lemma invariant_overwrite_live:
  assumes "invariant h v" and "block h q = Some cq" and "i < length cq" and "cq ! i = Some y"
  shows "invariant (h[q := Some (cq[i := Some y'])]) v"
  using assms(1)
proof (cases rule: invariant_cases)
  case empty
  with invariant_empty[of v] show ?thesis by simp
next
  case (block b)
  let ?h' = "h[q := Some (cq[i := Some y'])]"
  let ?xs = "elements h v" and ?c = "m_capacity (m_data v)"
  have ql: "q < length h" using assms(2) by (rule block_Some_length)
  show ?thesis
  proof (cases "q = b")
    case False
    with block(2) have "block ?h' b = Some (map Some ?xs @ replicate (?c - length ?xs) None)"
      using block(5) by simp
    from invariant_block(1)[OF block(1) this] block show ?thesis by simp
  next
    case True
    with assms(2) block(2) have cq: "cq = map Some ?xs @ replicate (?c - m_size v) None" by simp
    with assms(3,4) block(5) have il: "i < length ?xs" by (auto simp: nth_append split: if_splits)
    have "cq[i := Some y'] = map Some (?xs[i := y']) @ replicate (?c - length (?xs[i := y'])) None"
      using il cq block(5) by (simp add: list_update_append map_update)
    with True ql have "block ?h' b
       = Some (map Some (?xs[i := y']) @ replicate (?c - length (?xs[i := y'])) None)" by simp
    from invariant_block(1)[OF block(1) this] block show ?thesis by simp
  qed
qed

lemma raw_block_overwrite_live:
  assumes "block h b = Some (replicate n None)" and "block h q = Some cq" and "i < length cq"
    and "cq ! i = Some y"
  shows "block (h[q := Some (cq[i := Some y'])]) b = Some (replicate n None)"
proof -
  have "q \<noteq> b" using assms by auto
  with assms(1) show ?thesis by simp
qed

lemma new_object_Returns_invariant:
  assumes "new_object T args h = Returns x h'" and "invariant h v"
  shows "invariant h' v"
  using new_object_Returns_cases[OF assms(1)] assms(2) invariant_overwrite_live by fastforce

lemma new_object_Returns_raw:
  assumes "new_object T args h = Returns x h'" and "block h b = Some (replicate n None)"
  shows "block h' b = Some (replicate n None)"
  using new_object_Returns_cases[OF assms(1)] assms(2) raw_block_overwrite_live by fastforce

lemma new_object_Returns_length: "new_object T args h = Returns x h' \<Longrightarrow> length h' = length h"
  using new_object_Returns_cases[of T args h x h'] by auto

subsection \<open>Growth: the new buffer\<close>

lemma invariant_append':
  assumes "invariant h v"
  shows "invariant (h @ [blk]) v \<and> elements (h @ [blk]) v = elements h v"
  using assms
proof (cases rule: invariant_cases)
  case empty
  with invariant_empty[of v "h @ [blk]"] show ?thesis by simp
next
  case (block b)
  have "b \<noteq> length h" using block_Some_length[OF block(2)] by simp
  with block(2) have *: "block (h @ [blk]) b
      = Some (map Some (elements h v) @ replicate (m_capacity (m_data v) - length (elements h v)) None)"
    using block(5) by simp
  from invariant_block[OF block(1) *] block show ?thesis by simp
qed

lemma invariant_append:
  assumes "invariant h v"
  shows "invariant (h @ [blk]) v" and "elements (h @ [blk]) v = elements h v"
  using invariant_append'[OF assms] by simp_all

lemma new_cells:
  assumes "length c2 = n" and "length xs \<le> n"
    and "\<And>i. i < length xs \<Longrightarrow> c2 ! i = Some (xs ! i)"
    and "\<And>i. length xs \<le> i \<Longrightarrow> i < n \<Longrightarrow> c2 ! i = None"
  shows "c2 = map Some xs @ replicate (n - length xs) None"
  using assms by (rule cells_eqI)

lemma EmplaceBack_full_Returns:
  assumes inv: "invariant h v" and full: "m_size v = Capacity v"
    and ret: "EmplaceBack T args (h, v) = Returns r (h', v')"
  shows "\<exists>x h2 ys.
           new_object T args (h @ [Some (replicate (if m_size v = 0 then 1 else m_size v * 2) None)])
             = Returns x h2 \<and>
           invariant h2 v \<and>
           list_all2 (\<lambda>a y. migrated T a = Some y) (elements h2 v) ys \<and>
           elements h' v' = ys @ [x] \<and> invariant h' v' \<and> m_size v' = m_size v + 1 \<and>
           m_data v' = \<lparr>m_buffer = Ptr (length h) 0,
                        m_capacity = (if m_size v = 0 then 1 else m_size v * 2)\<rparr> \<and>
           r = Ptr (length h) (m_size v)"
proof -
  let ?n = "m_size v"
  define n' where "n' = (if m_size v = 0 then 1 else m_size v * 2)"
  have n': "?n < n'" "n' \<noteq> 0" by (simp_all add: n'_def)
  let ?new = "\<lparr>m_buffer = Ptr (length h) 0, m_capacity = n'\<rparr>"
  let ?h1 = "h @ [Some (replicate n' None)]"
  let ?pv = "m_buffer (m_data v)"
  have eq: "EmplaceBack T args (h, v) =
      then_on v (RawMemory_new T n' h) (\<lambda>new_data h1.
        then_on v
          (unwinding
             (and_then (new_object T args h1) (\<lambda>x h2.
              and_then (construct_at (RawMemory_plus new_data (m_size v)) x h2) (\<lambda>_ h3.
              and_then (MoveOrCopy T (GetAddress (m_data v)) (m_size v) (GetAddress new_data) h3)
                (\<lambda>_ h4. destroy_n (GetAddress (m_data v)) (m_size v) h4))))
             (RawMemory_destroy new_data)) (\<lambda>_ h5.
          case RawMemory_Swap (m_data v) new_data of
            (d, old) \<Rightarrow>
              then_on (v\<lparr>m_data := d, m_size := m_size v + 1\<rparr>) (RawMemory_destroy old h5) (\<lambda>_ h6.
                case RawMemory_at d (m_size v + 1 - 1) of None \<Rightarrow> Fault assertion_failed
                | Some r \<Rightarrow> Returns r (h6, v\<lparr>m_data := d, m_size := m_size v + 1\<rparr>))))"
    unfolding n'_def by (subst EmplaceBack.simps, subst if_P[OF full]) (rule refl)
  from ret[unfolded eq] n'(2) obtain x h2 h3 h4 h5 where
    no: "new_object T args ?h1 = Returns x h2"
    and ca: "construct_at (Ptr (length h) ?n) x h2 = Returns () h3"
    and mig: "MoveOrCopy T ?pv ?n (Ptr (length h) 0) h3 = Returns () h4"
    and des: "destroy_n ?pv ?n h4 = Returns () h5"
    and dea: "Deallocate ?pv h5 = Returns () h'"
    and v': "v' = v\<lparr>m_data := ?new, m_size := ?n + 1\<rparr>"
    and r: "r = Ptr (length h) ?n"
    by (auto simp: Returns_simps RawMemory_new_Returns GetAddress_def RawMemory_Swap_def
        RawMemory_destroy_def RawMemory_plus_def RawMemory_at_def split: if_splits)
  have inv2: "invariant h2 v"
    using new_object_Returns_invariant[OF no invariant_append(1)[OF inv]] .
  have raw2: "block h2 (length h) = Some (replicate n' None)"
    by (rule new_object_Returns_raw[OF no]) simp
  let ?cd = "(replicate n' None)[?n := Some x]"
  from ca raw2 have h3: "h3 = h2[length h := Some ?cd]" by (auto simp: construct_at_Returns)
  have l2: "length h < length h2" using block_Some_length[OF raw2] .
  have "\<exists>ys. list_all2 (\<lambda>a y. migrated T a = Some y) (elements h2 v) ys \<and>
          block h' (length h) = Some (map Some (ys @ [x]) @ replicate (n' - length (ys @ [x])) None) \<and>
          length ys = ?n"
    using inv2
  proof (cases rule: invariant_cases)
    case empty
    with mig des dea have "h' = h3" by (simp add: MoveOrCopy_zero destroy_n_zero)
    with h3 l2 empty n' have "block h' (length h) = Some (map Some ([] @ [x])
        @ replicate (n' - length ([] @ [x])) None)"
      by (simp add: n'_def)
    with empty show ?thesis by (intro exI[of _ "[]"]) simp
  next
    case (block b)
    let ?xs = "elements h2 v" and ?c = "m_capacity (m_data v)"
    let ?cs = "map Some ?xs @ replicate (?c - ?n) None"
    have c: "?c = ?n" using full by (simp add: Capacity_def RawMemory_Capacity_def)
    have ne: "b \<noteq> length h"
    proof
      assume "b = length h"
      with block(2) raw2 have "length ?cs = length (replicate n' (None :: 'a option))" by simp
      with block(5) c n'(1) show False by simp
    qed
    have bs: "block h3 b = Some ?cs" using h3 block(2) ne by simp
    have bd: "block h3 (length h) = Some ?cd" using h3 l2 by simp
    from MoveOrCopy_Returns[OF mig[unfolded block(1)] bs bd ne]
    obtain ys zs where ys0: "length ys = ?n \<and> length zs = ?n \<and>
           h4 = h3[b := Some (splice ?cs 0 (map Some zs)),
                   length h := Some (splice ?cd 0 (map Some ys))] \<and>
           (\<forall>k<?n. 0 + k < length ?cs \<and> 0 + k < length ?cd \<and>
              (\<exists>a. ?cs ! (0 + k) = Some a \<and> migrated T a = Some (ys ! k)))" by blast
    then have ys: "length ys = ?n"
      "h4 = h3[b := Some (splice ?cs 0 (map Some zs)), length h := Some (splice ?cd 0 (map Some ys))]"
      "\<forall>k<?n. \<exists>a. ?cs ! k = Some a \<and> migrated T a = Some (ys ! k)"
      by simp_all
    have l3: "length h3 = length h2" "b < length h2" using h3 block_Some_length[OF block(2)] by simp_all
    have b4: "block h4 b = Some (splice ?cs 0 (map Some zs))" using ys(2) l3 ne by simp
    from destroy_n_Returns[OF des[unfolded block(1)] b4]
    have h5: "h5 = h4[b := Some (splice (splice ?cs 0 (map Some zs)) 0 (replicate ?n None))]"
      by simp
    from dea[unfolded block(1)] have h': "h' = h5[b := None]" by (simp split: if_splits)
    have "block h' (length h) = Some (splice ?cd 0 (map Some ys))"
      using h' h5 ys(2) l3 l2 ne by simp
    moreover have "splice ?cd 0 (map Some ys)
        = map Some (ys @ [x]) @ replicate (n' - length (ys @ [x])) None"
    proof (rule new_cells)
      show "length (splice ?cd 0 (map Some ys)) = n'" using ys(1) n'(1) by simp
      show "length (ys @ [x]) \<le> n'" using ys(1) n'(1) by simp
    next
      fix i assume "i < length (ys @ [x])"
      with ys(1) n'(1) show "splice ?cd 0 (map Some ys) ! i = Some ((ys @ [x]) ! i)"
        by (auto simp: nth_splice nth_append less_Suc_eq)
    next
      fix i assume "length (ys @ [x]) \<le> i" "i < n'"
      with ys(1) show "splice ?cd 0 (map Some ys) ! i = None"
        by (simp add: nth_splice)
    qed
    moreover have "list_all2 (\<lambda>a y. migrated T a = Some y) ?xs ys"
      using ys(1,3) block(5) by (auto simp: list_all2_conv_all_nth nth_append)
    ultimately show ?thesis using ys(1) by (intro exI[of _ ys]) simp
  qed
  then obtain ys where ys: "list_all2 (\<lambda>a y. migrated T a = Some y) (elements h2 v) ys"
    "block h' (length h) = Some (map Some (ys @ [x]) @ replicate (n' - length (ys @ [x])) None)"
    "length ys = ?n" by blast
  from invariant_block[of v' "length h" h' "ys @ [x]" n', OF _ ys(2)] v' ys(3) n'
  have "invariant h' v'" "elements h' v' = ys @ [x]" by simp_all
  with no inv2 ys(1) v' r show ?thesis unfolding n'_def by (intro exI[of _ x] exI[of _ h2] exI[of _ ys]) simp
qed

lemma Emplace_full_Returns:
  assumes inv: "invariant h v" and full: "m_size v = Capacity v" and p: "p \<le> m_size v"
    and ret: "Emplace T (position v p) args (h, v) = Returns r (h', v')"
  shows "\<exists>x h2 ys.
           new_object T args (h @ [Some (replicate (if m_size v = 0 then 1 else m_size v * 2) None)])
             = Returns x h2 \<and>
           invariant h2 v \<and>
           list_all2 (\<lambda>a y. migrated T a = Some y) (elements h2 v) ys \<and>
           elements h' v' = take p ys @ [x] @ drop p ys \<and> invariant h' v' \<and>
           m_size v' = m_size v + 1 \<and>
           m_data v' = \<lparr>m_buffer = Ptr (length h) 0,
                        m_capacity = (if m_size v = 0 then 1 else m_size v * 2)\<rparr> \<and>
           r = Ptr (length h) p"
proof -
  let ?n = "m_size v"
  define n' where "n' = (if m_size v = 0 then 1 else m_size v * 2)"
  have n': "?n < n'" "n' \<noteq> 0" by (simp_all add: n'_def)
  let ?new = "\<lparr>m_buffer = Ptr (length h) 0, m_capacity = n'\<rparr>"
  let ?h1 = "h @ [Some (replicate n' None)]"
  let ?pv = "m_buffer (m_data v)"
  have full': "m_size v = RawMemory_Capacity (m_data v)" using full by (simp add: Capacity_def)
  have dist: "ptr_diff (position v p) (Vector_begin v) = Some p"
    using inv
  proof (cases rule: invariant_cases)
    case empty
    with p show ?thesis by (simp add: position_def Vector_begin_def GetAddress_def)
  next
    case (block b)
    then show ?thesis by (simp add: position_def Vector_begin_def GetAddress_def)
  qed
  have eq: "Emplace T (position v p) args (h, v) =
        then_on v (RawMemory_new T n' h) (\<lambda>new_data h1.
          then_on v
            (unwinding
               (and_then (new_object T args h1) (\<lambda>x h2.
                and_then (construct_at (RawMemory_plus new_data p) x h2) (\<lambda>_ h3.
                and_then (MoveOrCopy T (Vector_begin v) p (GetAddress new_data) h3) (\<lambda>_ h4.
                and_then (if m_size v < p then Fault undefined_behaviour
                          else MoveOrCopy T (ptr_add (Vector_begin v) p) (m_size v - p)
                                 (ptr_add (GetAddress new_data) (p + 1)) h4) (\<lambda>_ h5.
                  destroy_n (GetAddress (m_data v)) (m_size v) h5)))))
               (RawMemory_destroy new_data)) (\<lambda>_ h6.
            case RawMemory_Swap (m_data v) new_data of
              (d, old) \<Rightarrow>
                then_on (v\<lparr>m_data := d, m_size := m_size v + 1\<rparr>) (RawMemory_destroy old h6)
                  (\<lambda>_ h7. Returns (ptr_add (Vector_begin (v\<lparr>m_data := d, m_size := m_size v + 1\<rparr>)) p)
                             (h7, v\<lparr>m_data := d, m_size := m_size v + 1\<rparr>))))"
    unfolding n'_def
    by (subst Emplace.simps, subst dist, simp only: option.case if_P[OF full'])
  from ret[unfolded eq] n'(2) p obtain x h2 h3 h4 h5 h6 where
    no: "new_object T args ?h1 = Returns x h2"
    and ca: "construct_at (Ptr (length h) p) x h2 = Returns () h3"
    and mig1: "MoveOrCopy T ?pv p (Ptr (length h) 0) h3 = Returns () h4"
    and mig2: "MoveOrCopy T (ptr_add ?pv p) (?n - p) (Ptr (length h) (Suc p)) h4 = Returns () h5"
    and des: "destroy_n ?pv ?n h5 = Returns () h6"
    and dea: "Deallocate ?pv h6 = Returns () h'"
    and v': "v' = v\<lparr>m_data := ?new, m_size := ?n + 1\<rparr>"
    and r: "r = Ptr (length h) p"
    by (auto simp: Returns_simps RawMemory_new_Returns GetAddress_def RawMemory_Swap_def
        RawMemory_destroy_def RawMemory_plus_def Vector_begin_def split: if_splits)
  have inv2: "invariant h2 v"
    using new_object_Returns_invariant[OF no invariant_append(1)[OF inv]] .
  have raw2: "block h2 (length h) = Some (replicate n' None)"
    by (rule new_object_Returns_raw[OF no]) simp
  let ?cd = "(replicate n' None)[p := Some x]"
  from ca raw2 have h3: "h3 = h2[length h := Some ?cd]" by (auto simp: construct_at_Returns)
  have l2: "length h < length h2" using block_Some_length[OF raw2] .
  have "\<exists>ys. list_all2 (\<lambda>a y. migrated T a = Some y) (elements h2 v) ys \<and>
          block h' (length h)
            = Some (map Some (take p ys @ [x] @ drop p ys)
                    @ replicate (n' - length (take p ys @ [x] @ drop p ys)) None) \<and>
          length ys = ?n"
    using inv2
  proof (cases rule: invariant_cases)
    case empty
    with p have p0: "p = 0" by simp
    with mig1 mig2 des dea empty have "h' = h3" by (simp add: MoveOrCopy_zero destroy_n_zero)
    with h3 l2 empty n' p0 have "block h' (length h) = Some (map Some (take p [] @ [x] @ drop p [])
        @ replicate (n' - length (take p [] @ [x] @ drop p [])) None)"
      by (simp add: n'_def)
    with empty show ?thesis by (intro exI[of _ "[]"]) simp
  next
    case (block b)
    let ?xs = "elements h2 v" and ?c = "m_capacity (m_data v)"
    let ?cs = "map Some ?xs @ replicate (?c - ?n) None"
    have c: "?c = ?n" using full by (simp add: Capacity_def RawMemory_Capacity_def)
    have lcs: "length ?cs = ?n" using block(5) c by simp
    have ne: "b \<noteq> length h"
    proof
      assume "b = length h"
      with block(2) raw2 have "length ?cs = length (replicate n' (None :: 'a option))" by simp
      with block(5) c n'(1) show False by simp
    qed
    have l3: "length h3 = length h2" "b < length h2"
      using h3 block_Some_length[OF block(2)] by simp_all
    have bs: "block h3 b = Some ?cs" using h3 block(2) ne by simp
    have bd: "block h3 (length h) = Some ?cd" using h3 l2 by simp
    from MoveOrCopy_Returns[OF mig1[unfolded block(1)] bs bd ne]
    obtain ys1 zs1 where ys10: "length ys1 = p \<and> length zs1 = p \<and>
           h4 = h3[b := Some (splice ?cs 0 (map Some zs1)),
                   length h := Some (splice ?cd 0 (map Some ys1))] \<and>
           (\<forall>k<p. 0 + k < length ?cs \<and> 0 + k < length ?cd \<and>
              (\<exists>a. ?cs ! (0 + k) = Some a \<and> migrated T a = Some (ys1 ! k)))" by blast
    then have ys1: "length ys1 = p" "length zs1 = p"
      "h4 = h3[b := Some (splice ?cs 0 (map Some zs1)),
               length h := Some (splice ?cd 0 (map Some ys1))]"
      "\<forall>k<p. \<exists>a. ?cs ! k = Some a \<and> migrated T a = Some (ys1 ! k)"
      by simp_all
    let ?cs4 = "splice ?cs 0 (map Some zs1)" and ?cd4 = "splice ?cd 0 (map Some ys1)"
    have b4: "block h4 b = Some ?cs4" and d4: "block h4 (length h) = Some ?cd4"
      using ys1(3) l3 l2 ne by simp_all
    from MoveOrCopy_Returns[OF mig2[unfolded block(1) ptr_add.simps] b4 d4 ne]
    obtain ys2 zs2 where ys20: "length ys2 = ?n - p \<and> length zs2 = ?n - p \<and>
           h5 = h4[b := Some (splice ?cs4 (0 + p) (map Some zs2)),
                   length h := Some (splice ?cd4 (Suc p) (map Some ys2))] \<and>
           (\<forall>k<?n - p. 0 + p + k < length ?cs4 \<and> Suc p + k < length ?cd4 \<and>
              (\<exists>a. ?cs4 ! (0 + p + k) = Some a \<and> migrated T a = Some (ys2 ! k)))" by blast
    then have ys2: "length ys2 = ?n - p" "length zs2 = ?n - p"
      "h5 = h4[b := Some (splice ?cs4 p (map Some zs2)),
               length h := Some (splice ?cd4 (Suc p) (map Some ys2))]"
      "\<forall>k<?n - p. \<exists>a. ?cs4 ! (p + k) = Some a \<and> migrated T a = Some (ys2 ! k)"
      by simp_all
    have l4: "length h4 = length h2" using ys1(3) l3 by simp
    have b5: "block h5 b = Some (splice ?cs4 p (map Some zs2))" using ys2(3) l4 l3 ne by simp
    from destroy_n_Returns[OF des[unfolded block(1)] b5]
    have h6: "h6 = h5[b := Some (splice (splice ?cs4 p (map Some zs2)) 0 (replicate ?n None))]"
      by simp
    from dea[unfolded block(1)] have h': "h' = h6[b := None]" by (simp split: if_splits)
    let ?cd5 = "splice ?cd4 (Suc p) (map Some ys2)"
    have new: "block h' (length h) = Some ?cd5"
      using h' h6 ys2(3) l4 l3 l2 ne by simp
    let ?ys = "ys1 @ ys2"
    have lys: "length ?ys = ?n" using ys1(1) ys2(1) p by simp
    have tk: "take p ?ys = ys1" "drop p ?ys = ys2" using ys1(1) by simp_all
    have lcd4: "length ?cd4 = n'" using ys1(1) p n'(1) by simp
    have cs4: "?cs4 ! (p + k) = ?cs ! (p + k)" if "k < ?n - p" for k
      using that ys1(2) lcs p by (simp add: nth_splice)
    have "?cd5 = map Some (ys1 @ [x] @ ys2) @ replicate (n' - length (ys1 @ [x] @ ys2)) None"
    proof (rule new_cells)
      show "length ?cd5 = n'" using lcd4 ys2(1) p n'(1) by simp
      show "length (ys1 @ [x] @ ys2) \<le> n'" using ys1(1) ys2(1) p n'(1) by simp
    next
      fix i assume i: "i < length (ys1 @ [x] @ ys2)"
      with ys1(1) ys2(1) p n'(1) have il: "i < n'" "i \<le> ?n" by simp_all
      show "?cd5 ! i = Some ((ys1 @ [x] @ ys2) ! i)"
      proof (cases "i \<le> p")
        case True
        with il lcd4 ys2(1) p n'(1) have "?cd5 ! i = ?cd4 ! i" by (simp add: nth_splice)
        also have "\<dots> = (if i < p then Some (ys1 ! i) else ?cd ! i)"
          using il ys1(1) p n'(1) by (simp add: nth_splice)
        also have "\<dots> = Some ((ys1 @ [x] @ ys2) ! i)"
          using True il ys1(1) by (auto simp: nth_append)
        finally show ?thesis .
      next
        case False
        with il lcd4 ys2(1) p n'(1) have "?cd5 ! i = Some (ys2 ! (i - Suc p))"
          by (simp add: nth_splice)
        also have "\<dots> = Some ((ys1 @ [x] @ ys2) ! i)"
          using False ys1(1) by (simp add: nth_append nth_Cons')
        finally show ?thesis .
      qed
    next
      fix i assume i: "length (ys1 @ [x] @ ys2) \<le> i" "i < n'"
      with ys1(1) ys2(1) p have "Suc ?n \<le> i" by simp
      with i lcd4 ys1(1) ys2(1) p n'(1) show "?cd5 ! i = None"
        by (simp add: nth_splice)
    qed
    with new tk have "block h' (length h)
            = Some (map Some (take p ?ys @ [x] @ drop p ?ys)
                    @ replicate (n' - length (take p ?ys @ [x] @ drop p ?ys)) None)" by simp
    moreover have "list_all2 (\<lambda>a y. migrated T a = Some y) ?xs ?ys"
      unfolding list_all2_conv_all_nth
    proof (intro conjI allI impI)
      show "length ?xs = length ?ys" using lys block(5) by simp
    next
      fix i assume i: "i < length ?xs"
      with block(5) have il: "i < ?n" by simp
      show "migrated T (?xs ! i) = Some (?ys ! i)"
      proof (cases "i < p")
        case True
        with ys1(4) obtain a where "?cs ! i = Some a" "migrated T a = Some (ys1 ! i)" by blast
        with True il ys1(1) block(5) show ?thesis by (simp add: nth_append)
      next
        case False
        then have k: "i - p < ?n - p" "p + (i - p) = i" using il by simp_all
        with ys2(4) obtain a where "?cs4 ! (p + (i - p)) = Some a"
          "migrated T a = Some (ys2 ! (i - p))" by blast
        with cs4[OF k(1)] k(2) have "?cs ! i = Some a" by simp
        with il block(5) have "?xs ! i = a" by (simp add: nth_append)
        with \<open>migrated T a = Some (ys2 ! (i - p))\<close> False ys1(1) show ?thesis
          by (simp add: nth_append)
      qed
    qed
    ultimately show ?thesis using lys by (intro exI[of _ ?ys]) simp
  qed
  then obtain ys where ys: "list_all2 (\<lambda>a y. migrated T a = Some y) (elements h2 v) ys"
    "block h' (length h)
            = Some (map Some (take p ys @ [x] @ drop p ys)
                    @ replicate (n' - length (take p ys @ [x] @ drop p ys)) None)"
    "length ys = ?n" by blast
  have len: "length (take p ys @ [x] @ drop p ys) = ?n + 1" using ys(3) p by simp
  from invariant_block[of v' "length h" h' "take p ys @ [x] @ drop p ys" n', OF _ ys(2)] v' len n'
  have "invariant h' v'" "elements h' v' = take p ys @ [x] @ drop p ys" by simp_all
  with no inv2 ys(1) v' r show ?thesis unfolding n'_def
    by (intro exI[of _ x] exI[of _ h2] exI[of _ ys]) simp
qed

subsection \<open>When nothing throws\<close>

lemma for_each_index_total:
  assumes "I k s"
    and "\<And>j t. k \<le> j \<Longrightarrow> j < k + n \<Longrightarrow> I j t \<Longrightarrow> \<exists>t'. body j t = Returns () t' \<and> I (Suc j) t'"
  shows "\<exists>s'. for_each_index k n body s = Returns () s' \<and> I (k + n) s'"
  using assms
proof (induction n arbitrary: k s)
  case 0
  then show ?case by simp
next
  case (Suc n)
  from Suc.prems(2)[OF _ _ Suc.prems(1)] obtain t where t: "body k s = Returns () t" "I (Suc k) t"
    by auto
  have "\<exists>s'. for_each_index (Suc k) n body t = Returns () s' \<and> I (Suc k + n) s'"
    by (rule Suc.IH[OF t(2)]) (use Suc.prems(2) in auto)
  with t(1) show ?case by simp
qed

lemma destroy_n_total:
  assumes "block h b = Some cs" and "\<forall>k<n. i + k < length cs \<and> cs ! (i + k) \<noteq> None"
  shows "\<exists>h'. destroy_n (Ptr b i) n h = Returns () h'"
proof -
  let ?I = "\<lambda>m t. m \<le> n \<and> t = h[b := Some (splice cs i (replicate m None))]"
  have "\<exists>h'. for_each_index 0 n (\<lambda>k. destroy_at (ptr_add (Ptr b i) k)) h = Returns () h'
          \<and> ?I (0 + n) h'"
  proof (rule for_each_index_total[where I = ?I])
    show "?I 0 h" using assms(1) by (simp add: block_update_same)
  next
    fix m t assume m: "m < 0 + n" and I: "?I m t"
    from I assms(1) have bt: "block t b = Some (splice cs i (replicate m None))"
      by (auto dest: block_Some_length)
    from m assms(2) have lt: "i + m < length cs" and live: "cs ! (i + m) \<noteq> None" by auto
    from live obtain y where y: "cs ! (i + m) = Some y" by auto
    have nth: "splice cs i (replicate m None) ! (i + m) = Some y"
      using lt y by (simp add: nth_splice)
    have upd: "(splice cs i (replicate m None))[i + m := None] = splice cs i (replicate (Suc m) None)"
      using splice_snoc[of i "replicate m None" cs None] lt by (simp add: replicate_append_same)
    let ?t' = "t[b := Some (splice cs i (replicate (Suc m) None))]"
    have "destroy_at (ptr_add (Ptr b i) m) t = Returns () ?t'"
      using bt lt nth upd by (auto simp: destroy_at_Returns)
    moreover have "?I (Suc m) ?t'" using I m by simp
    ultimately show "\<exists>t'. destroy_at (ptr_add (Ptr b i) m) t = Returns () t' \<and> ?I (Suc m) t'"
      by blast
  qed
  then show ?thesis unfolding destroy_n_def by blast
qed

lemma uninitialized_move_n_total:
  assumes "block h bs = Some cs" and "block h bd = Some cd" and "bs \<noteq> bd"
    and "\<forall>k<n. i + k < length cs \<and> j + k < length cd \<and>
               (\<exists>x. cs ! (i + k) = Some x \<and> move_construct T x \<noteq> None)"
  shows "\<exists>h'. uninitialized_move_n T (Ptr bs i) n (Ptr bd j) h = Returns () h'"
proof -
  let ?I = "\<lambda>m t. \<exists>ys zs. length ys = m \<and> length zs = m \<and>
           t = h[bs := Some (splice cs i (map Some zs)), bd := Some (splice cd j (map Some ys))]"
  let ?body = "\<lambda>k h. unwinding (and_then (move_object T (ptr_add (Ptr bs i) k) h)
                   (construct_at (ptr_add (Ptr bd j) k))) (destroy_n (Ptr bd j) k)"
  have "\<exists>h'. for_each_index 0 n ?body h = Returns () h' \<and> ?I (0 + n) h'"
  proof (rule for_each_index_total[where I = ?I])
    show "?I 0 h" using assms(1,2) by (simp add: block_update_same)
  next
    fix m t assume m: "m < 0 + n" and I: "?I m t"
    from I obtain ys zs where ys: "length ys = m" "length zs = m"
      "t = h[bs := Some (splice cs i (map Some zs)), bd := Some (splice cd j (map Some ys))]"
      by blast
    have bs: "block t bs = Some (splice cs i (map Some zs))"
      and bd: "block t bd = Some (splice cd j (map Some ys))"
      using ys(3) assms(1-3) by (auto dest: block_Some_length)
    from m assms(4) obtain x y z where lt: "i + m < length cs" "j + m < length cd"
      and x: "cs ! (i + m) = Some x" "move_construct T x = Some (y, z)" by fastforce
    have nth: "splice cs i (map Some zs) ! (i + m) = Some x"
      using lt x ys(2) by (simp add: nth_splice)
    have 1: "(splice cd j (map Some ys))[j + m := Some y] = splice cd j (map Some (ys @ [y]))"
      using splice_snoc[of j "map Some ys" cd "Some y"] lt ys(1) by simp
    have 2: "(splice cs i (map Some zs))[i + m := Some z] = splice cs i (map Some (zs @ [z]))"
      using splice_snoc[of i "map Some zs" cs "Some z"] lt ys(2) by simp
    let ?t1 = "t[bs := Some (splice cs i (map Some (zs @ [z])))]"
    let ?t2 = "?t1[bd := Some (splice cd j (map Some (ys @ [y])))]"
    have mo: "move_object T (ptr_add (Ptr bs i) m) t = Returns y ?t1"
      using bs lt nth x 2 ys(2) by (auto simp: move_object_Returns)
    have "block ?t1 bd = Some (splice cd j (map Some ys))" using bd assms(3) by simp
    then have ca: "construct_at (ptr_add (Ptr bd j) m) y ?t1 = Returns () ?t2"
      using lt 1 ys(1) by (auto simp: construct_at_Returns)
    have "?t2 = h[bs := Some (splice cs i (map Some (zs @ [z]))),
                 bd := Some (splice cd j (map Some (ys @ [y])))]"
      unfolding ys(3) using assms(3) by (rule update_twice_two)
    then have "?I (Suc m) ?t2" using ys(1,2)
      by (intro exI[of _ "ys @ [y]"] exI[of _ "zs @ [z]"]) simp
    moreover have "?body m t = Returns () ?t2" using mo ca by simp
    ultimately show "\<exists>t'. ?body m t = Returns () t' \<and> ?I (Suc m) t'" by blast
  qed
  then show ?thesis unfolding uninitialized_move_n_def by blast
qed

lemma EmplaceBack_moves_total:
  assumes inv: "invariant h v" and full: "m_size v = Capacity v"
    and mv: "migrates_by_move T"
    and alloc: "can_allocate T (if m_size v = 0 then 1 else m_size v * 2)"
    and con: "construct T g = Some x"
    and ok: "\<forall>a \<in> set (elements h v). move_construct T a \<noteq> None"
  shows "\<exists>r h' v'. EmplaceBack T (Args g) (h, v) = Returns r (h', v')"
proof -
  let ?n = "m_size v"
  define n' where "n' = (if m_size v = 0 then 1 else m_size v * 2)"
  have n': "?n < n'" "n' \<noteq> 0" by (simp_all add: n'_def)
  let ?new = "\<lparr>m_buffer = Ptr (length h) 0, m_capacity = n'\<rparr>"
  let ?h1 = "h @ [Some (replicate n' None)]"
  let ?pv = "m_buffer (m_data v)"
  let ?cd = "(replicate n' None)[?n := Some x]"
  let ?h3 = "h @ [Some ?cd]"
  have s1: "RawMemory_new T n' h = Returns ?new ?h1"
    using alloc n'(2) by (simp add: RawMemory_new_Returns n'_def)
  have s2: "new_object T (Args g) ?h1 = Returns x ?h1" using con by simp
  have s3: "construct_at (Ptr (length h) ?n) x ?h1 = Returns () ?h3"
    using n'(1) by (simp add: construct_at_Returns)
  have "\<exists>h4 h5 h6. MoveOrCopy T ?pv ?n (Ptr (length h) 0) ?h3 = Returns () h4 \<and>
          destroy_n ?pv ?n h4 = Returns () h5 \<and> Deallocate ?pv h5 = Returns () h6"
    using inv
  proof (cases rule: invariant_cases)
    case empty
    then show ?thesis by (simp add: MoveOrCopy_zero destroy_n_zero)
  next
    case (block b)
    let ?xs = "elements h v" and ?c = "m_capacity (m_data v)"
    let ?cs = "map Some ?xs @ replicate (?c - ?n) None"
    have bl: "b < length h" using block(2) by (rule block_Some_length)
    then have ne: "b \<noteq> length h" by simp
    have bs: "block ?h3 b = Some ?cs" using block(2) bl by simp
    have bd: "block ?h3 (length h) = Some ?cd" by simp
    have pre: "\<forall>k<?n. 0 + k < length ?cs \<and> 0 + k < length ?cd \<and>
               (\<exists>a. ?cs ! (0 + k) = Some a \<and> move_construct T a \<noteq> None)"
      using ok block(3,5) n'(1) by (auto simp: nth_append)
    from uninitialized_move_n_total[OF bs bd ne pre] obtain h4 where
      m4: "uninitialized_move_n T (Ptr b 0) ?n (Ptr (length h) 0) ?h3 = Returns () h4" by blast
    from uninitialized_move_n_Returns[OF m4 bs bd ne] obtain ys zs where
      z: "length zs = ?n \<and> h4 = ?h3[b := Some (splice ?cs 0 (map Some zs)),
                        length h := Some (splice ?cd 0 (map Some ys))]" by blast
    then have b4: "block h4 b = Some (splice ?cs 0 (map Some zs))" using bl by simp
    have "\<forall>k<?n. 0 + k < length (splice ?cs 0 (map Some zs)) \<and>
             splice ?cs 0 (map Some zs) ! (0 + k) \<noteq> None"
      using z block(3,5) by (simp add: nth_splice)
    from destroy_n_total[OF b4 this] obtain h5 where
      d5: "destroy_n (Ptr b 0) ?n h4 = Returns () h5" by blast
    from destroy_n_Returns[OF d5 b4] have "block h5 b \<noteq> None" using z bl by simp
    then have "Deallocate (Ptr b 0) h5 = Returns () (h5[b := None])" by simp
    with m4 d5 mv block(1) show ?thesis by (auto simp: MoveOrCopy_def migrates_by_move_def)
  qed
  then obtain h4 h5 h6 where s4: "MoveOrCopy T ?pv ?n (Ptr (length h) 0) ?h3 = Returns () h4"
    and s5: "destroy_n ?pv ?n h4 = Returns () h5" and s6: "Deallocate ?pv h5 = Returns () h6"
    by blast
  show ?thesis
    apply (subst EmplaceBack.simps, subst if_P[OF full])
    apply (fold n'_def)
    apply (simp only: s1 then_on.simps)
    apply (simp add: s2 s3 s4 s5 s6 GetAddress_def RawMemory_plus_def RawMemory_Swap_def
        RawMemory_destroy_def RawMemory_at_def n'(1) del: new_object.simps)
    done
qed

lemma MoveOrCopy_Returns_policy:
  assumes ret: "MoveOrCopy T (Ptr bs i) n (Ptr bd j) h = Returns u h1"
    and bs: "block h bs = Some cs" and bd: "block h bd = Some cd" and ne: "bs \<noteq> bd"
  shows "\<exists>ys zs. length ys = n \<and> length zs = n \<and>
           block h1 bd = Some (splice cd j (map Some ys)) \<and>
           block h1 bs = Some (splice cs i (map Some zs)) \<and>
           (\<forall>k<n. \<exists>a. cs ! (i + k) = Some a \<and>
              (if migrates_by_move T then move_construct T a = Some (ys ! k, zs ! k)
               else copy_construct T a = Some (ys ! k) \<and> zs ! k = a))"
proof (cases "migrates_by_move T")
  case True
  with ret have "uninitialized_move_n T (Ptr bs i) n (Ptr bd j) h = Returns u h1"
    by (simp add: MoveOrCopy_def migrates_by_move_def)
  from uninitialized_move_n_Returns[OF this bs bd ne] obtain ys zs where
    *: "length ys = n" "length zs = n"
    "h1 = h[bs := Some (splice cs i (map Some zs)), bd := Some (splice cd j (map Some ys))]"
    "\<forall>k<n. i + k < length cs \<and> j + k < length cd \<and>
       (\<exists>x. cs ! (i + k) = Some x \<and> move_construct T x = Some (ys ! k, zs ! k))" by blast
  have "block h1 bd = Some (splice cd j (map Some ys))"
    "block h1 bs = Some (splice cs i (map Some zs))"
    using *(3) ne block_Some_length[OF bs] block_Some_length[OF bd] by simp_all
  with * True show ?thesis by (intro exI[of _ ys] exI[of _ zs]) auto
next
  case False
  with ret have "uninitialized_copy_n T (Ptr bs i) n (Ptr bd j) h = Returns u h1"
    by (auto simp: MoveOrCopy_def migrates_by_move_def)
  from uninitialized_copy_n_Returns[OF this bs bd ne] obtain ys where ys: "length ys = n"
    "h1 = h[bd := Some (splice cd j (map Some ys))]"
    "\<forall>k<n. i + k < length cs \<and> j + k < length cd \<and>
              (\<exists>x. cs ! (i + k) = Some x \<and> copy_construct T x = Some (ys ! k))" by blast
  define zs where "zs = map (\<lambda>k. the (cs ! (i + k))) [0..<n]"
  have same: "splice cs i (map Some zs) = cs"
    by (rule splice_same) (use ys(3) in \<open>auto simp: zs_def\<close>)
  have "block h1 bd = Some (splice cd j (map Some ys))" "block h1 bs = Some cs"
    using ys(2) ne bs block_Some_length[OF bd] by simp_all
  with ys False same show ?thesis
    by (intro exI[of _ ys] exI[of _ zs]) (auto simp: zs_def)
qed

lemma MoveOrCopy_copy_source:
  assumes "\<not> migrates_by_move T"
    and "MoveOrCopy T (Ptr bs i) n (Ptr bd j) h = Returns u h1 \<or>
         MoveOrCopy T (Ptr bs i) n (Ptr bd j) h = Throws e h1"
    and "block h bs = Some cs" and "block h bd = Some cd" and "bs \<noteq> bd"
  shows "block h1 bs = Some cs"
proof -
  from assms(1) have "MoveOrCopy T (Ptr bs i) n (Ptr bd j) h
      = uninitialized_copy_n T (Ptr bs i) n (Ptr bd j) h"
    by (auto simp: MoveOrCopy_def migrates_by_move_def)
  with assms(2) uninitialized_copy_n_source[OF _ assms(3-5)] show ?thesis by simp
qed

lemma migrated_by_move:
  assumes "migrates_by_move T" and "list_all2 (\<lambda>a y. migrated T a = Some y) xs ys"
  shows "ys = map (\<lambda>a. fst (the (move_construct T a))) xs"
  using assms(2)
  by (induction xs ys rule: list_all2_induct) (auto simp: migrated_def assms(1))

text \<open>
  Claim C3. \<^verbatim>\<open>MoveOrCopy\<close>, from one block into another, when it returns, has built each
  destination object by the move constructor and left the source object in the state
  the move leaves, if move construction is \<^verbatim>\<open>noexcept\<close> or the type is not copyable; it
  has built it by the copy constructor and left the source object as it was otherwise.
  When it copies, the source block is as it was however it ends, by return or by
  exception. The three migrations use it: the elements after \<^verbatim>\<open>Reserve\<close> beyond the
  capacity, and after \<^verbatim>\<open>EmplaceBack\<close> and \<^verbatim>\<open>Emplace\<close> at capacity, are the migrated
  elements (the new element, constructed first, in its place). On a vector of size and
  capacity 2 of a type that is not copyable, whose moves of the two elements do not
  throw, \<^verbatim>\<open>EmplaceBack\<close> returns, with capacity 4, size 3 and the two elements
  move-constructed from the old ones, followed by the new one.
\<close>

theorem migration_moves_or_copies:
  "(block h bs = Some cs \<and> block h bd = Some cd \<and> bs \<noteq> bd \<and>
    MoveOrCopy T (Ptr bs i) n (Ptr bd j) h = Returns () h1 \<longrightarrow>
      (\<exists>ys zs. length ys = n \<and> length zs = n \<and>
         block h1 bd = Some (splice cd j (map Some ys)) \<and>
         block h1 bs = Some (splice cs i (map Some zs)) \<and>
         (\<forall>k<n. \<exists>a. cs ! (i + k) = Some a \<and>
            (if is_nothrow_move_constructible T \<or> \<not> is_copy_constructible T
             then move_construct T a = Some (ys ! k, zs ! k)
             else copy_construct T a = Some (ys ! k) \<and> zs ! k = a)))) \<and>
   (\<not> (is_nothrow_move_constructible T \<or> \<not> is_copy_constructible T) \<and>
    block h bs = Some cs \<and> block h bd = Some cd \<and> bs \<noteq> bd \<and>
    (MoveOrCopy T (Ptr bs i) n (Ptr bd j) h = Returns () h1 \<or>
     MoveOrCopy T (Ptr bs i) n (Ptr bd j) h = Throws e h1) \<longrightarrow>
      block h1 bs = Some cs) \<and>
   (invariant h v \<and> Capacity v < n \<and> Reserve T n (h, v) = Returns () (h', v') \<longrightarrow>
      list_all2 (\<lambda>a y. migrated T a = Some y) (elements h v) (elements h' v')) \<and>
   (invariant h v \<and> Size v = Capacity v \<and> EmplaceBack T args (h, v) = Returns r (h', v') \<longrightarrow>
      (\<exists>x h2 ys. new_object T args (h @ [Some (replicate (max 1 (2 * Capacity v)) None)])
                   = Returns x h2 \<and>
                 list_all2 (\<lambda>a y. migrated T a = Some y) (elements h2 v) ys \<and>
                 elements h' v' = ys @ [x])) \<and>
   (invariant h v \<and> Size v = Capacity v \<and> p \<le> Size v \<and>
    Emplace T (position v p) args (h, v) = Returns r (h', v') \<longrightarrow>
      (\<exists>x h2 ys. new_object T args (h @ [Some (replicate (max 1 (2 * Capacity v)) None)])
                   = Returns x h2 \<and>
                 list_all2 (\<lambda>a y. migrated T a = Some y) (elements h2 v) ys \<and>
                 elements h' v' = take p ys @ [x] @ drop p ys)) \<and>
   (invariant h v \<and> Size v = 2 \<and> Capacity v = 2 \<and> \<not> is_copy_constructible T \<and>
    can_allocate T 4 \<and> construct T g = Some x \<and>
    (\<forall>a \<in> set (elements h v). move_construct T a \<noteq> None) \<longrightarrow>
      (\<exists>r h' v'. EmplaceBack T (Args g) (h, v) = Returns r (h', v') \<and>
         Capacity v' = 4 \<and> Size v' = 3 \<and>
         elements h' v' = map (\<lambda>a. fst (the (move_construct T a))) (elements h v) @ [x]))"
proof (intro conjI impI)
  assume "block h bs = Some cs \<and> block h bd = Some cd \<and> bs \<noteq> bd \<and>
    MoveOrCopy T (Ptr bs i) n (Ptr bd j) h = Returns () h1"
  then have "MoveOrCopy T (Ptr bs i) n (Ptr bd j) h = Returns () h1" "block h bs = Some cs"
    "block h bd = Some cd" "bs \<noteq> bd" by blast+
  from MoveOrCopy_Returns_policy[OF this]
  show "\<exists>ys zs. length ys = n \<and> length zs = n \<and>
         block h1 bd = Some (splice cd j (map Some ys)) \<and>
         block h1 bs = Some (splice cs i (map Some zs)) \<and>
         (\<forall>k<n. \<exists>a. cs ! (i + k) = Some a \<and>
            (if is_nothrow_move_constructible T \<or> \<not> is_copy_constructible T
             then move_construct T a = Some (ys ! k, zs ! k)
             else copy_construct T a = Some (ys ! k) \<and> zs ! k = a))"
    unfolding migrates_by_move_def .
next
  assume a: "\<not> (is_nothrow_move_constructible T \<or> \<not> is_copy_constructible T) \<and>
    block h bs = Some cs \<and> block h bd = Some cd \<and> bs \<noteq> bd \<and>
    (MoveOrCopy T (Ptr bs i) n (Ptr bd j) h = Returns () h1 \<or>
     MoveOrCopy T (Ptr bs i) n (Ptr bd j) h = Throws e h1)"
  then have "\<not> migrates_by_move T" by (simp add: migrates_by_move_def)
  from MoveOrCopy_copy_source[OF this, of bs i n bd j h "()" h1 e cs cd] a
  show "block h1 bs = Some cs" by blast
next
  assume "invariant h v \<and> Capacity v < n \<and> Reserve T n (h, v) = Returns () (h', v')"
  then have "invariant h v" "Capacity v < n" "Reserve T n (h, v) = Returns () (h', v')" by blast+
  from Reserve_Returns[OF this]
  show "list_all2 (\<lambda>a y. migrated T a = Some y) (elements h v) (elements h' v')" by blast
next
  assume "invariant h v \<and> Size v = Capacity v \<and> EmplaceBack T args (h, v) = Returns r (h', v')"
  then have a: "invariant h v" "m_size v = Capacity v"
    "EmplaceBack T args (h, v) = Returns r (h', v')"
    by (simp_all add: Size_def del: EmplaceBack.simps)
  have "(if m_size v = 0 then 1 else m_size v * 2) = max 1 (2 * Capacity v)"
    using a(2) by (simp add: max_def)
  with EmplaceBack_full_Returns[OF a]
  show "\<exists>x h2 ys. new_object T args (h @ [Some (replicate (max 1 (2 * Capacity v)) None)])
                   = Returns x h2 \<and>
                 list_all2 (\<lambda>a y. migrated T a = Some y) (elements h2 v) ys \<and>
                 elements h' v' = ys @ [x]"
    by (simp only:) blast
next
  assume "invariant h v \<and> Size v = Capacity v \<and> p \<le> Size v \<and>
    Emplace T (position v p) args (h, v) = Returns r (h', v')"
  then have a: "invariant h v" "m_size v = Capacity v" "p \<le> m_size v"
    "Emplace T (position v p) args (h, v) = Returns r (h', v')"
    by (simp_all add: Size_def del: Emplace.simps)
  have "(if m_size v = 0 then 1 else m_size v * 2) = max 1 (2 * Capacity v)"
    using a(2) by (simp add: max_def)
  with Emplace_full_Returns[OF a]
  show "\<exists>x h2 ys. new_object T args (h @ [Some (replicate (max 1 (2 * Capacity v)) None)])
                   = Returns x h2 \<and>
                 list_all2 (\<lambda>a y. migrated T a = Some y) (elements h2 v) ys \<and>
                 elements h' v' = take p ys @ [x] @ drop p ys"
    by (simp only:) blast
next
  assume "invariant h v \<and> Size v = 2 \<and> Capacity v = 2 \<and> \<not> is_copy_constructible T \<and>
    can_allocate T 4 \<and> construct T g = Some x \<and>
    (\<forall>a \<in> set (elements h v). move_construct T a \<noteq> None)"
  then have a: "invariant h v" "m_size v = 2" "Capacity v = 2" "\<not> is_copy_constructible T"
    "can_allocate T 4" "construct T g = Some x"
    "\<forall>a \<in> set (elements h v). move_construct T a \<noteq> None" by (simp_all add: Size_def)
  have full: "m_size v = Capacity v" using a(2,3) by simp
  have mv: "migrates_by_move T" using a(4) by (simp add: migrates_by_move_def)
  have alloc: "can_allocate T (if m_size v = 0 then 1 else m_size v * 2)" using a(2,5) by simp
  from EmplaceBack_moves_total[OF a(1) full mv alloc a(6,7)] obtain r h' v' where
    ret: "EmplaceBack T (Args g) (h, v) = Returns r (h', v')" by blast
  from EmplaceBack_full_Returns[OF a(1) full ret] obtain x' h2 ys where
    *: "new_object T (Args g) (h @ [Some (replicate (if m_size v = 0 then 1 else m_size v * 2) None)])
          = Returns x' h2"
    "list_all2 (\<lambda>a y. migrated T a = Some y) (elements h2 v) ys"
    "elements h' v' = ys @ [x']" "m_size v' = m_size v + 1"
    "m_data v' = \<lparr>m_buffer = Ptr (length h) 0,
                  m_capacity = (if m_size v = 0 then 1 else m_size v * 2)\<rparr>" by blast
  from *(1) a(6) have x': "x' = x"
    and h2: "h2 = h @ [Some (replicate (if m_size v = 0 then 1 else m_size v * 2) None)]"
    by simp_all
  have "elements h2 v = elements h v" unfolding h2 by (rule invariant_append(2)[OF a(1)])
  with *(2) migrated_by_move[OF mv] have "ys = map (\<lambda>a. fst (the (move_construct T a))) (elements h v)"
    by simp
  with *(3,4,5) x' a(2) ret
  show "\<exists>r h' v'. EmplaceBack T (Args g) (h, v) = Returns r (h', v') \<and>
         Capacity v' = 4 \<and> Size v' = 3 \<and>
         elements h' v' = map (\<lambda>a. fst (the (move_construct T a))) (elements h v) @ [x]"
    by (intro exI[of _ r] exI[of _ h'] exI[of _ v'])
      (simp add: Capacity_def RawMemory_Capacity_def Size_def del: EmplaceBack.simps)
qed

theorem migration_moves_or_copies_witness:
  "block [Some [Some (Some (1::int)), Some (Some 2)], Some [None, None, None, None]] 0
     = Some [Some (Some 1), Some (Some 2)]
   \<and> block [Some [Some (Some (1::int)), Some (Some 2)], Some [None, None, None, None]] 1
     = Some [None, None, None, None]
   \<and> (0::nat) \<noteq> 1
   \<and> MoveOrCopy handle_type (Ptr 0 0) 2 (Ptr 1 0)
        [Some [Some (Some 1), Some (Some 2)], Some [None, None, None, None]]
       = Returns () [Some [Some None, Some None], Some [Some (Some 1), Some (Some 2), None, None]]
   \<and> (\<exists>ys zs. length ys = 2 \<and> length zs = 2 \<and>
         block [Some [Some None, Some None], Some [Some (Some (1::int)), Some (Some 2), None, None]] 1
           = Some (splice [None, None, None, None] 0 (map Some ys)) \<and>
         block [Some [Some None, Some None], Some [Some (Some (1::int)), Some (Some 2), None, None]] 0
           = Some (splice [Some (Some 1), Some (Some 2)] 0 (map Some zs)) \<and>
         (\<forall>k<2. \<exists>a. [Some (Some 1), Some (Some 2)] ! (0 + k) = Some a \<and>
            (if is_nothrow_move_constructible handle_type \<or> \<not> is_copy_constructible handle_type
             then move_construct handle_type a = Some (ys ! k, zs ! k)
             else copy_construct handle_type a = Some (ys ! k) \<and> zs ! k = a)))
   \<and> \<not> (is_nothrow_move_constructible throwing_type \<or> \<not> is_copy_constructible throwing_type)
   \<and> block [Some [Some (1::int), Some 13], Some [None, None, None, None]] 0
       = Some [Some 1, Some 13]
   \<and> block [Some [Some (1::int), Some 13], Some [None, None, None, None]] 1
       = Some [None, None, None, None]
   \<and> MoveOrCopy throwing_type (Ptr 0 0) 2 (Ptr 1 0)
        [Some [Some 1, Some 13], Some [None, None, None, None]]
       = Throws element_exception [Some [Some 1, Some 13], Some [None, None, None, None]]
   \<and> invariant [Some [Some (Some (1::int)), Some (Some 2)]]
        \<lparr>m_data = \<lparr>m_buffer = Ptr 0 0, m_capacity = 2\<rparr>, m_size = 2\<rparr>
   \<and> Capacity \<lparr>m_data = \<lparr>m_buffer = Ptr 0 0, m_capacity = 2\<rparr>, m_size = 2\<rparr> < 4
   \<and> Reserve handle_type 4
        ([Some [Some (Some 1), Some (Some 2)]],
         \<lparr>m_data = \<lparr>m_buffer = Ptr 0 0, m_capacity = 2\<rparr>, m_size = 2\<rparr>)
       = Returns ()
          ([None, Some [Some (Some 1), Some (Some 2), None, None]],
           \<lparr>m_data = \<lparr>m_buffer = Ptr 1 0, m_capacity = 4\<rparr>, m_size = 2\<rparr>)
   \<and> list_all2 (\<lambda>a y. migrated handle_type a = Some y)
        (elements [Some [Some (Some (1::int)), Some (Some 2)]]
           \<lparr>m_data = \<lparr>m_buffer = Ptr 0 0, m_capacity = 2\<rparr>, m_size = 2\<rparr>)
        (elements [None, Some [Some (Some (1::int)), Some (Some 2), None, None]]
           \<lparr>m_data = \<lparr>m_buffer = Ptr 1 0, m_capacity = 4\<rparr>, m_size = 2\<rparr>)
   \<and> Size \<lparr>m_data = \<lparr>m_buffer = Ptr 0 0, m_capacity = 2\<rparr>, m_size = 2\<rparr>
       = Capacity \<lparr>m_data = \<lparr>m_buffer = Ptr 0 0, m_capacity = 2\<rparr>, m_size = 2\<rparr>
   \<and> EmplaceBack handle_type (Args 3)
        ([Some [Some (Some 1), Some (Some 2)]],
         \<lparr>m_data = \<lparr>m_buffer = Ptr 0 0, m_capacity = 2\<rparr>, m_size = 2\<rparr>)
       = Returns (Ptr 1 2)
          ([None, Some [Some (Some 1), Some (Some 2), Some (Some 3), None]],
           \<lparr>m_data = \<lparr>m_buffer = Ptr 1 0, m_capacity = 4\<rparr>, m_size = 3\<rparr>)
   \<and> 1 \<le> Size \<lparr>m_data = \<lparr>m_buffer = Ptr 0 0, m_capacity = 2\<rparr>, m_size = 2\<rparr>
   \<and> Emplace handle_type
        (position \<lparr>m_data = \<lparr>m_buffer = Ptr 0 0, m_capacity = 2\<rparr>, m_size = 2\<rparr> 1) (Args 3)
        ([Some [Some (Some 1), Some (Some 2)]],
         \<lparr>m_data = \<lparr>m_buffer = Ptr 0 0, m_capacity = 2\<rparr>, m_size = 2\<rparr>)
       = Returns (Ptr 1 1)
          ([None, Some [Some (Some 1), Some (Some 3), Some (Some 2), None]],
           \<lparr>m_data = \<lparr>m_buffer = Ptr 1 0, m_capacity = 4\<rparr>, m_size = 3\<rparr>)
   \<and> (\<exists>x h2 ys. list_all2 (\<lambda>a y. migrated handle_type a = Some y)
          (elements h2 \<lparr>m_data = \<lparr>m_buffer = Ptr 0 0, m_capacity = 2\<rparr>, m_size = 2\<rparr>) ys \<and>
        elements [None, Some [Some (Some (1::int)), Some (Some 3), Some (Some 2), None]]
          \<lparr>m_data = \<lparr>m_buffer = Ptr 1 0, m_capacity = 4\<rparr>, m_size = 3\<rparr>
          = take 1 ys @ [x] @ drop 1 ys)
   \<and> Size \<lparr>m_data = \<lparr>m_buffer = Ptr 0 0, m_capacity = 2\<rparr>, m_size = 2\<rparr> = 2
   \<and> Capacity \<lparr>m_data = \<lparr>m_buffer = Ptr 0 0, m_capacity = 2\<rparr>, m_size = 2\<rparr> = 2
   \<and> \<not> is_copy_constructible handle_type
   \<and> can_allocate handle_type 4
   \<and> construct handle_type 3 = Some (Some 3)
   \<and> list_all (\<lambda>a. move_construct handle_type a \<noteq> None)
         (elements [Some [Some (Some (1::int)), Some (Some 2)]]
            \<lparr>m_data = \<lparr>m_buffer = Ptr 0 0, m_capacity = 2\<rparr>, m_size = 2\<rparr>)
   \<and> (\<exists>r h' v'. EmplaceBack handle_type (Args 3)
          ([Some [Some (Some 1), Some (Some 2)]],
           \<lparr>m_data = \<lparr>m_buffer = Ptr 0 0, m_capacity = 2\<rparr>, m_size = 2\<rparr>) = Returns r (h', v') \<and>
         Capacity v' = 4 \<and> Size v' = 3 \<and>
         elements h' v'
           = map (\<lambda>a. fst (the (move_construct handle_type a)))
               (elements [Some [Some (Some 1), Some (Some 2)]]
                  \<lparr>m_data = \<lparr>m_buffer = Ptr 0 0, m_capacity = 2\<rparr>, m_size = 2\<rparr>) @ [Some 3])"
proof -
  let ?cs = "[Some (Some 1), Some (Some 2)] :: int option option list"
  let ?cd = "[None, None, None, None] :: int option option list"
  let ?hA = "[Some ?cs, Some ?cd]"
  let ?hA' = "[Some [Some None, Some None], Some [Some (Some 1), Some (Some 2), None, None]]
               :: int option heap"
  let ?hB = "[Some [Some 1, Some 13], Some [None, None, None, None]] :: int heap"
  let ?h = "[Some ?cs]"
  let ?v = "\<lparr>m_data = \<lparr>m_buffer = Ptr 0 0, m_capacity = 2\<rparr>, m_size = 2\<rparr>"
  let ?hR = "[None, Some [Some (Some 1), Some (Some 2), None, None]] :: int option heap"
  let ?vR = "\<lparr>m_data = \<lparr>m_buffer = Ptr 1 0, m_capacity = 4\<rparr>, m_size = 2\<rparr>"
  let ?hE = "[None, Some [Some (Some 1), Some (Some 2), Some (Some 3), None]] :: int option heap"
  let ?hI = "[None, Some [Some (Some 1), Some (Some 3), Some (Some 2), None]] :: int option heap"
  let ?v3 = "\<lparr>m_data = \<lparr>m_buffer = Ptr 1 0, m_capacity = 4\<rparr>, m_size = 3\<rparr>"
  note pol = migration_moves_or_copies
  have a1: "block ?hA 0 = Some ?cs" by code_simp
  have a2: "block ?hA 1 = Some ?cd" by code_simp
  have a3: "(0::nat) \<noteq> 1" by simp
  have a4: "MoveOrCopy handle_type (Ptr 0 0) 2 (Ptr 1 0) ?hA = Returns () ?hA'" by code_simp
  have c1: "\<exists>ys zs. length ys = 2 \<and> length zs = 2 \<and>
         block ?hA' 1 = Some (splice ?cd 0 (map Some ys)) \<and>
         block ?hA' 0 = Some (splice ?cs 0 (map Some zs)) \<and>
         (\<forall>k<2. \<exists>a. ?cs ! (0 + k) = Some a \<and>
            (if is_nothrow_move_constructible handle_type \<or> \<not> is_copy_constructible handle_type
             then move_construct handle_type a = Some (ys ! k, zs ! k)
             else copy_construct handle_type a = Some (ys ! k) \<and> zs ! k = a))"
    by (rule pol[where T = handle_type and h = ?hA and bs = 0 and bd = 1 and cs = ?cs
          and cd = ?cd and i = 0 and j = 0 and n = 2 and ?h1.0 = ?hA',
          THEN conjunct1, THEN mp])
      (intro conjI a1 a2 a3 a4)
  have b0: "\<not> (is_nothrow_move_constructible throwing_type \<or> \<not> is_copy_constructible throwing_type)"
    by (simp add: throwing_type_def)
  have b1: "block ?hB 0 = Some [Some 1, Some 13]" by code_simp
  have b2: "block ?hB 1 = Some [None, None, None, None]" by code_simp
  have b4: "MoveOrCopy throwing_type (Ptr 0 0) 2 (Ptr 1 0) ?hB = Throws element_exception ?hB"
    by code_simp
  have c2: "block ?hB 0 = Some [Some 1, Some 13]"
    by (rule pol[where T = throwing_type and h = ?hB and bs = 0 and bd = 1
          and cs = "[Some 1, Some 13]" and cd = "[None, None, None, None]"
          and i = 0 and j = 0 and n = 2 and ?h1.0 = ?hB and e = element_exception,
          THEN conjunct2, THEN conjunct1, THEN mp])
      (intro conjI b0 b1 b2 a3 disjI2 b4)
  have inv: "invariant ?h ?v" by code_simp
  have lt: "Capacity ?v < 4" by code_simp
  have r3: "Reserve handle_type 4 (?h, ?v) = Returns () (?hR, ?vR)" by code_simp
  have c3: "list_all2 (\<lambda>a y. migrated handle_type a = Some y) (elements ?h ?v) (elements ?hR ?vR)"
    by (rule pol[where T = handle_type and h = ?h and v = ?v and n = 4 and h' = ?hR and v' = ?vR,
          THEN conjunct2, THEN conjunct2, THEN conjunct1, THEN mp])
      (intro conjI inv lt r3)
  have full: "Size ?v = Capacity ?v" by code_simp
  have r4: "EmplaceBack handle_type (Args 3) (?h, ?v) = Returns (Ptr 1 2) (?hE, ?v3)" by code_simp
  have p: "1 \<le> Size ?v" by code_simp
  have r5: "Emplace handle_type (position ?v 1) (Args 3) (?h, ?v) = Returns (Ptr 1 1) (?hI, ?v3)"
    by code_simp
  have "\<exists>x h2 ys. new_object handle_type (Args 3)
                    (?h @ [Some (replicate (max 1 (2 * Capacity ?v)) None)]) = Returns x h2 \<and>
        list_all2 (\<lambda>a y. migrated handle_type a = Some y) (elements h2 ?v) ys \<and>
        elements ?hI ?v3 = take 1 ys @ [x] @ drop 1 ys"
    by (rule pol[where T = handle_type and h = ?h and v = ?v and p = 1 and args = "Args 3"
          and r = "Ptr 1 1" and h' = ?hI and v' = ?v3,
          THEN conjunct2, THEN conjunct2, THEN conjunct2, THEN conjunct2, THEN conjunct1, THEN mp])
      (intro conjI inv full p r5)
  then have c5: "\<exists>x h2 ys. list_all2 (\<lambda>a y. migrated handle_type a = Some y) (elements h2 ?v) ys \<and>
        elements ?hI ?v3 = take 1 ys @ [x] @ drop 1 ys" by blast
  have s: "Size ?v = 2" "Capacity ?v = 2" by code_simp+
  have nc: "\<not> is_copy_constructible handle_type" by (simp add: handle_type_def)
  have al: "can_allocate handle_type 4" by (simp add: handle_type_def)
  have co: "construct handle_type 3 = Some (Some 3)" by (simp add: handle_type_def)
  have ok: "\<forall>a \<in> set (elements ?h ?v). move_construct handle_type a \<noteq> None"
    by (simp add: handle_type_def)
  from ok have ok': "list_all (\<lambda>a. move_construct handle_type a \<noteq> None) (elements ?h ?v)"
    by (simp only: list_all_iff)
  have c6: "\<exists>r h' v'. EmplaceBack handle_type (Args 3) (?h, ?v) = Returns r (h', v') \<and>
         Capacity v' = 4 \<and> Size v' = 3 \<and>
         elements h' v' = map (\<lambda>a. fst (the (move_construct handle_type a))) (elements ?h ?v)
                          @ [Some 3]"
    by (rule pol[where T = handle_type and h = ?h and v = ?v and g = 3 and x = "Some 3",
          THEN conjunct2, THEN conjunct2, THEN conjunct2, THEN conjunct2, THEN conjunct2, THEN mp])
      (intro conjI inv s nc al co ok)
  show ?thesis
    by (intro conjI a1 a2 a3 a4 c1 b0 b1 b2 b4 inv lt r3 c3 full r4 p r5 c5 s nc al co ok' c6)
qed

end
